theory Spec2Isabelle
  imports Complex_Main "HOL-Library.Word"
begin

section \<open>Three-component vectors\<close>

text \<open>
  The simulation stores positions and velocities as Taichi vectors of three floats.
  The components are modelled as exact real numbers: rounding and overflow are
  not modelled. What is modelled of the float behaviour is undefinedness: a
  division by zero yields a value that is not a number (or is infinite), and
  every later value computed from it is not a finite number either. Such a
  vector is \<open>None\<close>; a vector of three finite numbers is \<open>Some\<close>.
\<close>

datatype vec3 = Vec3 (vx: real) (vy: real) (vz: real)

instantiation vec3 :: ab_group_add
begin

definition zero_vec3 :: vec3 where
  "zero_vec3 = Vec3 0 0 0"

definition plus_vec3 :: "vec3 \<Rightarrow> vec3 \<Rightarrow> vec3" where
  "plus_vec3 a b = Vec3 (vx a + vx b) (vy a + vy b) (vz a + vz b)"

definition minus_vec3 :: "vec3 \<Rightarrow> vec3 \<Rightarrow> vec3" where
  "minus_vec3 a b = Vec3 (vx a - vx b) (vy a - vy b) (vz a - vz b)"

definition uminus_vec3 :: "vec3 \<Rightarrow> vec3" where
  "uminus_vec3 a = Vec3 (- vx a) (- vy a) (- vz a)"

instance
  by standard (simp_all add: zero_vec3_def plus_vec3_def minus_vec3_def uminus_vec3_def)

end

text \<open>Scalar multiple, dot product, Euclidean norm.\<close>

definition smul :: "real \<Rightarrow> vec3 \<Rightarrow> vec3" where
  "smul a p = Vec3 (a * vx p) (a * vy p) (a * vz p)"

definition dot :: "vec3 \<Rightarrow> vec3 \<Rightarrow> real" where
  "dot p q = vx p * vx q + vy p * vy q + vz p * vz q"

definition vnorm :: "vec3 \<Rightarrow> real" where
  "vnorm p = sqrt (dot p p)"

text \<open>
  Taichi's \<open>normalized()\<close> multiplies the vector by \<open>1 / norm\<close>. For the zero
  vector this is \<open>0 * (1 / 0)\<close> in every component, which is not a number.
\<close>

definition normalized :: "vec3 \<Rightarrow> vec3 option" where
  "normalized p = (if vnorm p = 0 then None else Some (smul (1 / vnorm p) p))"

text \<open>The operations on possibly undefined vectors: undefinedness propagates.\<close>

definition fadd :: "vec3 option \<Rightarrow> vec3 option \<Rightarrow> vec3 option" where
  "fadd a b = (case a of None \<Rightarrow> None | Some p \<Rightarrow> (case b of None \<Rightarrow> None | Some q \<Rightarrow> Some (p + q)))"

definition fsub :: "vec3 option \<Rightarrow> vec3 option \<Rightarrow> vec3 option" where
  "fsub a b = (case a of None \<Rightarrow> None | Some p \<Rightarrow> (case b of None \<Rightarrow> None | Some q \<Rightarrow> Some (p - q)))"

definition fsmul :: "real \<Rightarrow> vec3 option \<Rightarrow> vec3 option" where
  "fsmul a b = map_option (smul a) b"

section \<open>Parameters and state\<close>

text \<open>
  The scripts fix their numeric parameters as module-level constants
  (\<open>n = 128\<close>, \<open>quad_size = 1.0 / n\<close>, ...). They are collected in a record so
  that the properties can be stated for every grid size and every choice of the
  physical constants.
\<close>

record params =
  n :: int
  quad_size :: real
  dt :: real
  gravity :: vec3
  spring_Y :: real
  dashpot_damping :: real
  drag_damping :: real

text \<open>The constants of \<open>3.0physsim.py\<close> (variant A) and \<open>p.clothes.py\<close> (variant B).\<close>

definition params_A :: params where
  "params_A = \<lparr> n = 128, quad_size = 1 / 128, dt = (4 / 100) / 128,
      gravity = Vec3 0 (- (98 / 10)) 0, spring_Y = 30000, dashpot_damping = 10000,
      drag_damping = 1 \<rparr>"

definition params_B :: params where
  "params_B = \<lparr> n = 128, quad_size = 1 / 128, dt = (2 / 100) / 128,
      gravity = Vec3 0 (- (98 / 10)) 0, spring_Y = 30000, dashpot_damping = 10000,
      drag_damping = 1 \<rparr>"

type_synonym idx = "int \<times> int"

text \<open>
  The Taichi fields and the other mutable module-level objects. \<open>x\<close> and \<open>v\<close> have
  shape \<open>(n, n)\<close>; only the indices of the grid are ever read or written.
  \<open>ball_center\<close> is a field with the single element \<open>ball_center[0]\<close>.
  \<open>dragging\<close> is a one-bit unsigned field, \<open>picked_node\<close> a pair of integers,
  \<open>drag_pos\<close> a vector (the last three exist in variant B only).
\<close>

record sim =
  x :: "idx \<Rightarrow> vec3 option"
  v :: "idx \<Rightarrow> vec3 option"
  ball_center :: vec3
  ball_radius :: real
  spring_offsets :: "idx list"
  indices :: "nat \<Rightarrow> int"
  vertices :: "nat \<Rightarrow> vec3 option"
  colors :: "nat \<Rightarrow> vec3"
  dragging :: "1 word"
  picked_node :: idx
  drag_pos :: vec3

text \<open>The index test \<open>0 <= j[0] < n and 0 <= j[1] < n\<close>.\<close>

definition in_grid :: "int \<Rightarrow> idx \<Rightarrow> bool" where
  "in_grid m j = (0 \<le> fst j \<and> fst j < m \<and> 0 \<le> snd j \<and> snd j < m)"

text \<open>
  The indices of a field of shape \<open>(m, m)\<close> in row-major order: the order of
  \<open>for i in range(m): for j in range(m)\<close>, and the sequential reading of the
  struct-for loops \<open>for i, j in x\<close> and \<open>for i in ti.grouped(x)\<close>.
\<close>

definition grid :: "int \<Rightarrow> idx list" where
  "grid m = concat (map (\<lambda>i. map (\<lambda>j. (i, j)) [0..m - 1]) [0..m - 1])"

definition idx_add :: "idx \<Rightarrow> idx \<Rightarrow> idx" where
  "idx_add i o' = (fst i + fst o', snd i + snd o')"

text \<open>
  The module state before \<open>initialize_mass_points\<close> runs: Taichi fills a new field
  with zeros, \<open>ball_center[0]\<close> is set to the origin, \<open>ball_radius\<close> is 0.3 and
  \<open>spring_offsets\<close> is the empty list.
\<close>

definition fields0 :: sim where
  "fields0 = \<lparr> x = (\<lambda>i. Some (Vec3 0 0 0)), v = (\<lambda>i. Some (Vec3 0 0 0)),
      ball_center = Vec3 0 0 0, ball_radius = 3 / 10, spring_offsets = [],
      indices = (\<lambda>k. 0), vertices = (\<lambda>k. Some (Vec3 0 0 0)), colors = (\<lambda>k. Vec3 0 0 0),
      dragging = 0, picked_node = (0, 0), drag_pos = Vec3 0 0 0 \<rparr>"

section \<open>Initialisation\<close>

text \<open>
  \<open>initialize_mass_points\<close>: the two calls of \<open>ti.random()\<close> are the parameters
  \<open>r0\<close> and \<open>r1\<close> (numbers in the interval from 0 to 1); the offset is computed
  once, before the loop over the nodes.
\<close>

definition init_node :: "params \<Rightarrow> real \<times> real \<Rightarrow> idx \<Rightarrow> sim \<Rightarrow> sim" where
  "init_node P ro i s =
     (let s1 = s\<lparr> x := (x s)(i := Some (Vec3
                  (real_of_int (fst i) * quad_size P - 1 / 2 + fst ro)
                  (6 / 10)
                  (real_of_int (snd i) * quad_size P - 1 / 2 + snd ro))) \<rparr>
      in s1\<lparr> v := (v s1)(i := Some (Vec3 0 0 0)) \<rparr>)"

definition initialize_mass_points :: "params \<Rightarrow> real \<Rightarrow> real \<Rightarrow> sim \<Rightarrow> sim" where
  "initialize_mass_points P r0 r1 s =
     (let random_offset = ((r0 - 1 / 2) * (1 / 10), (r1 - 1 / 2) * (1 / 10))
      in fold (init_node P random_offset) (grid (n P)) s)"

text \<open>The list built by the loops that fill \<open>spring_offsets\<close>.\<close>

definition offsets_of :: "bool \<Rightarrow> idx list" where
  "offsets_of bending_springs =
     (if bending_springs
      then concat (map (\<lambda>i. concat (map (\<lambda>j. if (i, j) \<noteq> (0, 0) then [(i, j)] else [])
                                          [- 1..1])) [- 1..1])
      else concat (map (\<lambda>i. concat (map (\<lambda>j. if (i, j) \<noteq> (0, 0) \<and> \<bar>i\<bar> + \<bar>j\<bar> \<le> 2
                                               then [(i, j)] else [])
                                          [- 2..2])) [- 2..2]))"

text \<open>Variant B appends to the global list in \<open>initialize_spring_offsets\<close>.\<close>

definition initialize_spring_offsets :: "bool \<Rightarrow> sim \<Rightarrow> sim" where
  "initialize_spring_offsets bending_springs s =
     s\<lparr> spring_offsets := spring_offsets s @ offsets_of bending_springs \<rparr>"

section \<open>The substep\<close>

text \<open>
  \<open>substep\<close> is a Taichi kernel made of top-level loops over the nodes. Each loop
  is modelled as a sequential pass that executes the loop body for one node
  after the other, in the order given by a list, on the fields themselves (there
  is no second copy of a field in the scripts). The substep runs its passes in
  row-major order. The bodies of the gravity pass and of the third pass read and
  write the entries of their own node only, so their result does not depend on
  the order; the body of the spring pass also reads the neighbours of its node.
\<close>

subsection \<open>Gravity pass\<close>

definition gravity_node :: "params \<Rightarrow> idx \<Rightarrow> sim \<Rightarrow> sim" where
  "gravity_node P i s =
     s\<lparr> v := (v s)(i := fadd (v s i) (Some (smul (dt P) (gravity P)))) \<rparr>"

definition gravity_pass :: "params \<Rightarrow> idx list \<Rightarrow> sim \<Rightarrow> sim" where
  "gravity_pass P order s = fold (gravity_node P) order s"

subsection \<open>Spring pass\<close>

text \<open>
  The two contributions of the neighbour \<open>j\<close> to the force on the node \<open>i\<close>.
  \<open>d = x_ij.normalized()\<close> is undefined when the two positions coincide;
  \<open>current_dist / original_dist\<close> is undefined when \<open>original_dist\<close> is zero.
\<close>

definition original_dist :: "params \<Rightarrow> idx \<Rightarrow> idx \<Rightarrow> real" where
  "original_dist P i j =
     quad_size P * sqrt ((real_of_int (fst i - fst j))\<^sup>2 + (real_of_int (snd i - snd j))\<^sup>2)"

definition spring_elastic :: "params \<Rightarrow> idx \<Rightarrow> idx \<Rightarrow> vec3 \<Rightarrow> vec3 \<Rightarrow> vec3 option" where
  "spring_elastic P i j xi xj =
     (let x_ij = xi - xj;
          current_dist = vnorm x_ij
      in case normalized x_ij of
           None \<Rightarrow> None
         | Some d \<Rightarrow>
             if original_dist P i j = 0 then None
             else Some (smul (- spring_Y P * (current_dist / original_dist P i j - 1)) d))"

definition spring_dashpot :: "params \<Rightarrow> vec3 \<Rightarrow> vec3 \<Rightarrow> vec3 \<Rightarrow> vec3 \<Rightarrow> vec3 option" where
  "spring_dashpot P xi xj vi vj =
     (let x_ij = xi - xj;
          v_ij = vi - vj
      in case normalized x_ij of
           None \<Rightarrow> None
         | Some d \<Rightarrow> Some (smul (- dot v_ij d * dashpot_damping P * quad_size P) d))"

text \<open>One iteration of the loop over \<open>spring_offsets\<close>, for the node \<open>i\<close>.\<close>

definition spring_accum :: "params \<Rightarrow> sim \<Rightarrow> idx \<Rightarrow> idx \<Rightarrow> vec3 option \<Rightarrow> vec3 option" where
  "spring_accum P s i spring_offset force =
     (let j = idx_add i spring_offset
      in if in_grid (n P) j
         then (case (x s i, x s j, v s i, v s j) of
                 (Some xi, Some xj, Some vi, Some vj) \<Rightarrow>
                   fadd (fadd force (spring_elastic P i j xi xj)) (spring_dashpot P xi xj vi vj)
               | _ \<Rightarrow> None)
         else force)"

definition spring_force :: "params \<Rightarrow> sim \<Rightarrow> idx \<Rightarrow> vec3 option" where
  "spring_force P s i = fold (spring_accum P s i) (spring_offsets s) (Some (Vec3 0 0 0))"

definition spring_node :: "params \<Rightarrow> idx \<Rightarrow> sim \<Rightarrow> sim" where
  "spring_node P i s =
     s\<lparr> v := (v s)(i := fadd (v s i) (fsmul (dt P) (spring_force P s i))) \<rparr>"

definition spring_pass :: "params \<Rightarrow> idx list \<Rightarrow> sim \<Rightarrow> sim" where
  "spring_pass P order s = fold (spring_node P) order s"

subsection \<open>Damping, collision and integration pass\<close>

definition damp :: "params \<Rightarrow> vec3 option \<Rightarrow> vec3 option" where
  "damp P w = fsmul (exp (- drag_damping P * dt P)) w"

text \<open>
  The sphere test and the velocity projection. An undefined position fails the
  comparison \<open>norm <= ball_radius\<close>, so the projection is skipped.
\<close>

definition collide :: "vec3 \<Rightarrow> real \<Rightarrow> vec3 option \<Rightarrow> vec3 option \<Rightarrow> vec3 option" where
  "collide c r xo vo =
     (case xo of
        None \<Rightarrow> vo
      | Some p \<Rightarrow>
          (let offset_to_center = p - c
           in if vnorm offset_to_center \<le> r
              then (case normalized offset_to_center of
                      None \<Rightarrow> None
                    | Some normal \<Rightarrow> map_option (\<lambda>w. w - smul (min (dot w normal) 0) normal) vo)
              else vo))"

definition integrate :: "params \<Rightarrow> vec3 option \<Rightarrow> vec3 option \<Rightarrow> vec3 option" where
  "integrate P xo vo = fadd xo (fsmul (dt P) vo)"

text \<open>Variant A: the body of the third loop of \<open>substep\<close> in \<open>3.0physsim.py\<close>.\<close>

definition move_node_A :: "params \<Rightarrow> idx \<Rightarrow> sim \<Rightarrow> sim" where
  "move_node_A P i s =
     (let s1 = s\<lparr> v := (v s)(i := damp P (v s i)) \<rparr>;
          s2 = s1\<lparr> v := (v s1)(i := collide (ball_center s1) (ball_radius s1) (x s1 i) (v s1 i)) \<rparr>
      in s2\<lparr> x := (x s2)(i := integrate P (x s2 i) (v s2 i)) \<rparr>)"

definition move_pass_A :: "params \<Rightarrow> idx list \<Rightarrow> sim \<Rightarrow> sim" where
  "move_pass_A P order s = fold (move_node_A P) order s"

definition substep_A :: "params \<Rightarrow> sim \<Rightarrow> sim" where
  "substep_A P s =
     move_pass_A P (grid (n P)) (spring_pass P (grid (n P)) (gravity_pass P (grid (n P)) s))"

text \<open>
  Variant B: the body of the third loop of \<open>substep\<close> in \<open>p.clothes.py\<close>. The
  velocity of the picked node is overwritten while \<open>dragging\<close> is 1; the sphere
  test follows for every node.
\<close>

definition sdiv :: "vec3 \<Rightarrow> real \<Rightarrow> vec3" where
  "sdiv p a = Vec3 (vx p / a) (vy p / a) (vz p / a)"

definition drag_velocity :: "params \<Rightarrow> vec3 \<Rightarrow> vec3 option \<Rightarrow> vec3 option" where
  "drag_velocity P target xo =
     (case xo of
        None \<Rightarrow> None
      | Some p \<Rightarrow> if dt P = 0 then None else Some (smul (1 / 2) (sdiv (target - p) (dt P))))"

text \<open>The test \<open>dragging[None] == 1 and all(i == picked_node[None])\<close>.\<close>

definition is_dragged :: "sim \<Rightarrow> idx \<Rightarrow> bool" where
  "is_dragged s i = (dragging s = 1 \<and> i = picked_node s)"

definition move_node_B :: "params \<Rightarrow> idx \<Rightarrow> sim \<Rightarrow> sim" where
  "move_node_B P i s =
     (let s1 = s\<lparr> v := (v s)(i := damp P (v s i)) \<rparr>;
          s2 = (if is_dragged s1 i
                then s1\<lparr> v := (v s1)(i := drag_velocity P (drag_pos s1) (x s1 i)) \<rparr>
                else s1);
          s3 = s2\<lparr> v := (v s2)(i := collide (ball_center s2) (ball_radius s2) (x s2 i) (v s2 i)) \<rparr>
      in s3\<lparr> x := (x s3)(i := integrate P (x s3 i) (v s3 i)) \<rparr>)"

definition move_pass_B :: "params \<Rightarrow> idx list \<Rightarrow> sim \<Rightarrow> sim" where
  "move_pass_B P order s = fold (move_node_B P) order s"

text \<open>The last loop of variant B, \<open>for i in range(n)\<close>, resets the column \<open>n - 1\<close>.\<close>

definition pin_node :: "params \<Rightarrow> int \<Rightarrow> sim \<Rightarrow> sim" where
  "pin_node P i s =
     (let s1 = s\<lparr> x := (x s)((i, n P - 1) :=
                  Some (Vec3 (real_of_int i * quad_size P - 1 / 2) (6 / 10) (1 / 2))) \<rparr>
      in s1\<lparr> v := (v s1)((i, n P - 1) := Some (Vec3 0 0 0)) \<rparr>)"

definition pin_pass :: "params \<Rightarrow> sim \<Rightarrow> sim" where
  "pin_pass P s = fold (pin_node P) [0..n P - 1] s"

definition substep_B :: "params \<Rightarrow> sim \<Rightarrow> sim" where
  "substep_B P s =
     pin_pass P
       (move_pass_B P (grid (n P)) (spring_pass P (grid (n P)) (gravity_pass P (grid (n P)) s)))"

section \<open>Picking and dragging (variant B)\<close>

text \<open>
  \<open>pick_node\<close>: the distance of a node from the ray, and the scan that keeps the
  first node with the least distance below 0.02. A comparison with an undefined
  distance is false, so a node with an undefined position is never picked.
\<close>

definition ray_dist :: "vec3 \<Rightarrow> vec3 \<Rightarrow> vec3 \<Rightarrow> real" where
  "ray_dist ray_ori ray_dir pos =
     (let to_node = pos - ray_ori;
          t = dot to_node ray_dir;
          closest = ray_ori + smul t ray_dir
      in vnorm (closest - pos))"

definition pick_step ::
  "vec3 \<Rightarrow> vec3 \<Rightarrow> (idx \<Rightarrow> vec3 option) \<Rightarrow> idx \<Rightarrow> idx option \<times> real \<Rightarrow> idx option \<times> real" where
  "pick_step ray_ori ray_dir xf k acc =
     (case xf k of
        None \<Rightarrow> acc
      | Some pos \<Rightarrow>
          (let dist = ray_dist ray_ori ray_dir pos
           in if dist < 2 / 100 \<and> dist < snd acc then (Some k, dist) else acc))"

definition pick_node :: "params \<Rightarrow> sim \<Rightarrow> vec3 \<Rightarrow> vec3 \<Rightarrow> idx option" where
  "pick_node P s ray_ori ray_dir =
     fst (fold (pick_step ray_ori ray_dir (x s)) (grid (n P)) (None, 10 ^ 10))"

text \<open>
  The mouse handling of one iteration of the main loop. The ray comes from the
  camera (\<open>get_mouse_ray\<close>) and is an input here.
\<close>

datatype mouse = Released | Pressed vec3 vec3

definition handle_mouse :: "params \<Rightarrow> mouse \<Rightarrow> sim \<Rightarrow> sim" where
  "handle_mouse P m s =
     (case m of
        Pressed ray_ori ray_dir \<Rightarrow>
          if dragging s = 0
          then (case pick_node P s ray_ori ray_dir of
                  Some picked \<Rightarrow> (s\<lparr> picked_node := picked \<rparr>)\<lparr> dragging := 1 \<rparr>
                | None \<Rightarrow> s)
          else s\<lparr> drag_pos := ray_ori + smul (15 / 10) ray_dir \<rparr>
      | Released \<Rightarrow> s\<lparr> dragging := 0 \<rparr>)"

section \<open>Auxiliary definitions\<close>

text \<open>The fields that no pass of the substep writes.\<close>

definition env_of ::
  "sim \<Rightarrow> vec3 \<times> real \<times> idx list \<times> (nat \<Rightarrow> int) \<times> (nat \<Rightarrow> vec3 option) \<times> (nat \<Rightarrow> vec3) \<times> 1 word \<times> idx \<times> vec3" where
  "env_of s = (ball_center s, ball_radius s, spring_offsets s, indices s, vertices s, colors s,
     dragging s, picked_node s, drag_pos s)"

text \<open>
  The velocity that the third pass leaves in the node \<open>i\<close>, in terms of the state
  before the pass.
\<close>

definition move_vel_A :: "params \<Rightarrow> sim \<Rightarrow> idx \<Rightarrow> vec3 option" where
  "move_vel_A P s i = collide (ball_center s) (ball_radius s) (x s i) (damp P (v s i))"

definition move_vel_B :: "params \<Rightarrow> sim \<Rightarrow> idx \<Rightarrow> vec3 option" where
  "move_vel_B P s i = collide (ball_center s) (ball_radius s) (x s i)
     (if is_dragged s i then drag_velocity P (drag_pos s) (x s i)
      else damp P (v s i))"

subsection \<open>Example states\<close>

text \<open>
  The state of variant B when the main loop starts, as \<open>main\<close> builds it (with
  both random numbers equal to 0.5, so that the random offset is zero).
\<close>

definition sheet_B :: sim where
  "sheet_B = initialize_spring_offsets False
               (initialize_mass_points params_B (1 / 2) (1 / 2) fields0)"

text \<open>That sheet with the node \<open>(0, 0)\<close> inside the ball, moving towards its centre.\<close>

definition inside_example :: sim where
  "inside_example = sheet_B\<lparr> x := (x sheet_B)((0, 0) := Some (Vec3 (1 / 10) 0 0)),
      v := (v sheet_B)((0, 0) := Some (Vec3 (- 1) 2 0)) \<rparr>"

text \<open>The same state while the node \<open>(0, 0)\<close> is dragged towards the origin.\<close>

definition dragged_example :: sim where
  "dragged_example = inside_example\<lparr> dragging := 1, picked_node := (0, 0) \<rparr>"

text \<open>
  A grid of two by two nodes, and a state in which the nodes \<open>(0, 0)\<close> and \<open>(0, 1)\<close>
  are equally far from the ray used below (which runs along the second axis), the
  position of \<open>(1, 0)\<close> is undefined, and \<open>(1, 1)\<close> is at the distance 3 from the
  ray, in the direction of the third axis.
\<close>

definition params_2 :: params where
  "params_2 = params_B\<lparr> n := 2, quad_size := 1 / 2 \<rparr>"

definition pick_example :: sim where
  "pick_example = fields0\<lparr> x := (x fields0)
      ((0, 0) := Some (Vec3 0 0 0), (0, 1) := Some (Vec3 (1 / 50) 0 0),
       (1, 0) := None, (1, 1) := Some (Vec3 (1 / 100) (- 5) 3)) \<rparr>"

text \<open>
  The initial sheet of variant A (random numbers 0.5, so the random offset is zero)
  with the node \<open>(0, 1)\<close> moved onto its neighbour \<open>(0, 0)\<close>.
\<close>

definition coincide_example :: sim where
  "coincide_example =
     (let s0 = initialize_mass_points params_A (1 / 2) (1 / 2)
                 (fields0\<lparr> spring_offsets := offsets_of True \<rparr>)
      in s0\<lparr> x := (x s0)((0, 1) := x s0 (0, 0)) \<rparr>)"

text \<open>
  The constants of variant A without dashpot damping, and the initial sheet of
  variant A (random numbers 0.5).
\<close>

definition params_A0 :: params where
  "params_A0 = params_A\<lparr> dashpot_damping := 0 \<rparr>"

definition sheet_A :: sim where
  "sheet_A = initialize_mass_points params_A (1 / 2) (1 / 2)
               (fields0\<lparr> spring_offsets := offsets_of True \<rparr>)"

text \<open>
  The initial sheet of variant A with the neighbours \<open>(0, 0)\<close> and \<open>(0, 1)\<close> both
  moved to the same point inside the ball.
\<close>

definition inside_pair_example :: sim where
  "inside_pair_example = sheet_A\<lparr> x := (x sheet_A)
      ((0, 0) := Some (Vec3 (1 / 10) 0 0), (0, 1) := Some (Vec3 (1 / 10) 0 0)) \<rparr>"

text \<open>
  A state of variant A with all nodes at rest on the first coordinate axis, the
  node \<open>(i, j)\<close> at \<open>3 * i + j + 1\<close>: every spring is stretched.
\<close>

definition line_example :: sim where
  "line_example = fields0\<lparr> x := (\<lambda>i. Some (Vec3 (real_of_int (3 * fst i + snd i + 1)) 0 0)),
      spring_offsets := offsets_of True \<rparr>"

text \<open>
  Constants without gravity, dashpot damping and drag damping for a grid of two by
  two nodes; a state in which the offsets \<open>(0, 1)\<close> and \<open>(0, -1)\<close> join the nodes
  in two pairs, at rest and stretched; and a state in which the offsets \<open>(1, 1)\<close>
  and \<open>(-1, -1)\<close> join just the nodes \<open>(0, 0)\<close> and \<open>(1, 1)\<close>, which coincide.
\<close>

definition params_free :: params where
  "params_free = \<lparr> n = 2, quad_size = 1 / 2, dt = 1 / 10, gravity = Vec3 0 0 0,
      spring_Y = 100, dashpot_damping = 0, drag_damping = 0 \<rparr>"

definition pairs_example :: sim where
  "pairs_example = fields0\<lparr> x := (\<lambda>i. Some (Vec3 (real_of_int (4 * fst i + snd i + 1)) 0 0)),
      spring_offsets := [(0, 1), (0, - 1)] \<rparr>"

definition joined_example :: sim where
  "joined_example = fields0\<lparr> x := (x fields0)
      ((0, 0) := Some (Vec3 1 0 0), (1, 1) := Some (Vec3 1 0 0),
       (0, 1) := Some (Vec3 2 0 0), (1, 0) := Some (Vec3 3 0 0)),
      spring_offsets := [(1, 1), (- 1, - 1)] \<rparr>"

subsection \<open>Notions used to state the result of picking\<close>

text \<open>
  The distance of the node \<open>k\<close> from the ray (undefined when its position is), and
  the order in which the two nested loops of \<open>pick_node\<close> visit the nodes.
\<close>

definition node_dist :: "vec3 \<Rightarrow> vec3 \<Rightarrow> (idx \<Rightarrow> vec3 option) \<Rightarrow> idx \<Rightarrow> real option" where
  "node_dist ray_ori ray_dir xf k = map_option (ray_dist ray_ori ray_dir) (xf k)"

definition earlier :: "idx \<Rightarrow> idx \<Rightarrow> bool" where
  "earlier k' k = (fst k' < fst k \<or> (fst k' = fst k \<and> snd k' < snd k))"

subsection \<open>Notions used to state the results on the spring pass\<close>

text \<open>
  A state is regular when every node of the grid has a defined position and
  velocity, no node coincides with one of its spring neighbours, and the rest
  lengths are not zero: the states in which no division by zero occurs in the
  spring pass.
\<close>

definition regular :: "params \<Rightarrow> sim \<Rightarrow> bool" where
  "regular P s =
     ((0, 0) \<notin> set (spring_offsets s) \<and> quad_size P \<noteq> 0 \<and>
      (\<forall>i \<in> set (grid (n P)). x s i \<noteq> None \<and> v s i \<noteq> None \<and>
         (\<forall>off \<in> set (spring_offsets s).
            in_grid (n P) (idx_add i off) \<longrightarrow> x s i \<noteq> x s (idx_add i off))))"

text \<open>
  The double-buffered reference of the specification: all force deltas are
  computed from the state before the pass, then applied to the nodes in
  \<open>order\<close>.
\<close>

definition spring_pass_ref :: "params \<Rightarrow> idx list \<Rightarrow> sim \<Rightarrow> sim" where
  "spring_pass_ref P order s =
     s\<lparr> v := (\<lambda>i. if i \<in> set order then fadd (v s i) (fsmul (dt P) (spring_force P s i))
                   else v s i) \<rparr>"

subsection \<open>Notions used to state the conservation of momentum\<close>

text \<open>
  The sum of the velocities of all nodes (undefined as soon as one velocity is);
  the states in which no node is inside the ball; the offset lists without
  duplicates that contain the opposite of each of their offsets.
\<close>

definition momentum :: "params \<Rightarrow> sim \<Rightarrow> vec3 option" where
  "momentum P s = fold (\<lambda>i acc. fadd acc (v s i)) (grid (n P)) (Some (Vec3 0 0 0))"

definition clear_of_ball :: "params \<Rightarrow> sim \<Rightarrow> bool" where
  "clear_of_ball P s =
     (\<forall>i \<in> set (grid (n P)).
        case x s i of None \<Rightarrow> True
                    | Some p \<Rightarrow> \<not> vnorm (p - ball_center s) \<le> ball_radius s)"

definition symmetric_offsets :: "idx list \<Rightarrow> bool" where
  "symmetric_offsets offs =
     (distinct offs \<and> (\<forall>off \<in> set offs. (- fst off, - snd off) \<in> set offs))"

text \<open>
  The elastic force that the node \<open>j\<close> exerts on the node \<open>i\<close>, as a total function
  (zero where \<open>spring_elastic\<close> is undefined); used in proofs only.
\<close>

definition edge_force :: "params \<Rightarrow> sim \<Rightarrow> idx \<Rightarrow> idx \<Rightarrow> vec3" where
  "edge_force P s i j =
     (case (x s i, x s j) of
        (Some xi, Some xj) \<Rightarrow>
          (case spring_elastic P i j xi xj of Some e \<Rightarrow> e | None \<Rightarrow> 0)
      | _ \<Rightarrow> 0)"

section \<open>Basic lemmas\<close>

lemma vec3_eq_iff: "p = q \<longleftrightarrow> vx p = vx q \<and> vy p = vy q \<and> vz p = vz q"
  by (cases p; cases q) simp

lemma vec3_sel [simp]:
  "vx (p + q) = vx p + vx q" "vy (p + q) = vy p + vy q" "vz (p + q) = vz p + vz q"
  "vx (p - q) = vx p - vx q" "vy (p - q) = vy p - vy q" "vz (p - q) = vz p - vz q"
  "vx (- p) = - vx p" "vy (- p) = - vy p" "vz (- p) = - vz p"
  "vx 0 = 0" "vy 0 = 0" "vz 0 = 0"
  "vx (smul a p) = a * vx p" "vy (smul a p) = a * vy p" "vz (smul a p) = a * vz p"
  by (simp_all add: plus_vec3_def minus_vec3_def uminus_vec3_def zero_vec3_def smul_def)

lemma set_grid: "set (grid m) = {j. in_grid m j}"
  by (auto simp: grid_def in_grid_def)

lemma distinct_grid: "distinct (grid m)"
  unfolding grid_def
  by (rule distinct_concat) (auto simp: distinct_map inj_on_def)

lemma length_grid: "length (grid m) = nat m * nat m"
  by (simp add: grid_def length_concat comp_def sum_list_triv)

lemma fold_env:
  assumes "\<And>k s. env_of (f k s) = env_of s"
  shows "env_of (fold f ks s) = env_of s"
  using assms by (induction ks arbitrary: s) simp_all

lemma env_gravity_node: "env_of (gravity_node P k s) = env_of s"
  by (simp add: env_of_def gravity_node_def)

lemma env_spring_node: "env_of (spring_node P k s) = env_of s"
  by (simp add: env_of_def spring_node_def)

lemma env_move_node_A: "env_of (move_node_A P k s) = env_of s"
  by (simp add: env_of_def move_node_A_def Let_def)

lemma env_move_node_B: "env_of (move_node_B P k s) = env_of s"
  by (simp add: env_of_def move_node_B_def Let_def)

lemma is_dragged_cong:
  "dragging s' = dragging s \<Longrightarrow> picked_node s' = picked_node s \<Longrightarrow> is_dragged s' i = is_dragged s i"
  by (simp add: is_dragged_def)

lemma env_pin_node: "env_of (pin_node P k s) = env_of s"
  by (simp add: env_of_def pin_node_def Let_def)

lemma env_init_node: "env_of (init_node P ro k s) = env_of s"
  by (simp add: env_of_def init_node_def Let_def)

lemma env_gravity_pass: "env_of (gravity_pass P order s) = env_of s"
  unfolding gravity_pass_def by (rule fold_env) (rule env_gravity_node)

lemma env_spring_pass: "env_of (spring_pass P order s) = env_of s"
  unfolding spring_pass_def by (rule fold_env) (rule env_spring_node)

lemma env_move_pass_A: "env_of (move_pass_A P order s) = env_of s"
  unfolding move_pass_A_def by (rule fold_env) (rule env_move_node_A)

lemma env_move_pass_B: "env_of (move_pass_B P order s) = env_of s"
  unfolding move_pass_B_def by (rule fold_env) (rule env_move_node_B)

lemma env_pin_pass: "env_of (pin_pass P s) = env_of s"
  unfolding pin_pass_def by (rule fold_env) (rule env_pin_node)

lemma env_substep_A: "env_of (substep_A P s) = env_of s"
  by (simp add: substep_A_def env_move_pass_A env_spring_pass env_gravity_pass)

lemma env_substep_B: "env_of (substep_B P s) = env_of s"
  by (simp add: substep_B_def env_pin_pass env_move_pass_B env_spring_pass env_gravity_pass)

lemma env_funpow:
  assumes "\<And>s. env_of (f s) = env_of s"
  shows "env_of ((f ^^ k) s) = env_of s"
  using assms by (induction k) simp_all

text \<open>The gravity pass and the spring pass do not write positions.\<close>

lemma x_gravity_pass: "x (gravity_pass P order s) = x s"
  unfolding gravity_pass_def by (induction order arbitrary: s) (simp_all add: gravity_node_def)

lemma x_spring_pass: "x (spring_pass P order s) = x s"
  unfolding spring_pass_def by (induction order arbitrary: s) (simp_all add: spring_node_def)

lemma v_gravity_pass:
  "distinct order \<Longrightarrow> v (gravity_pass P order s) i =
     (if i \<in> set order then fadd (v s i) (Some (smul (dt P) (gravity P))) else v s i)"
  unfolding gravity_pass_def
  by (induction order arbitrary: s) (auto simp: gravity_node_def)

lemma move_node_A_eq:
  "move_node_A P i s = s\<lparr> v := (v s)(i := move_vel_A P s i),
                           x := (x s)(i := integrate P (x s i) (move_vel_A P s i)) \<rparr>"
  by (simp add: move_node_A_def move_vel_A_def Let_def)

lemma move_node_B_eq:
  "move_node_B P i s = s\<lparr> v := (v s)(i := move_vel_B P s i),
                           x := (x s)(i := integrate P (x s i) (move_vel_B P s i)) \<rparr>"
  by (simp add: move_node_B_def move_vel_B_def Let_def is_dragged_def)

lemma move_pass_A_at:
  "distinct order \<Longrightarrow>
   v (move_pass_A P order s) i = (if i \<in> set order then move_vel_A P s i else v s i) \<and>
   x (move_pass_A P order s) i =
     (if i \<in> set order then integrate P (x s i) (move_vel_A P s i) else x s i)"
  unfolding move_pass_A_def
proof (induction order arbitrary: s)
  case Nil
  show ?case by simp
next
  case (Cons k ks)
  have other: "i \<noteq> k \<Longrightarrow> move_vel_A P (move_node_A P k s) i = move_vel_A P s i"
    by (simp add: move_node_A_eq move_vel_A_def)
  have IH: "v (fold (move_node_A P) ks (move_node_A P k s)) i =
      (if i \<in> set ks then move_vel_A P (move_node_A P k s) i else v (move_node_A P k s) i) \<and>
    x (fold (move_node_A P) ks (move_node_A P k s)) i =
      (if i \<in> set ks then integrate P (x (move_node_A P k s) i) (move_vel_A P (move_node_A P k s) i)
       else x (move_node_A P k s) i)"
    using Cons by simp
  have vk: "v (move_node_A P k s) = (v s)(k := move_vel_A P s k)"
    and xk: "x (move_node_A P k s) = (x s)(k := integrate P (x s k) (move_vel_A P s k))"
    by (simp_all add: move_node_A_eq)
  show ?case
  proof (cases "i = k")
    case True
    with Cons.prems have "i \<notin> set ks" by simp
    with IH True show ?thesis by (simp add: vk xk)
  next
    case False
    with IH other show ?thesis by (simp add: vk xk)
  qed
qed

lemma move_pass_B_at:
  "distinct order \<Longrightarrow>
   v (move_pass_B P order s) i = (if i \<in> set order then move_vel_B P s i else v s i) \<and>
   x (move_pass_B P order s) i =
     (if i \<in> set order then integrate P (x s i) (move_vel_B P s i) else x s i)"
  unfolding move_pass_B_def
proof (induction order arbitrary: s)
  case Nil
  show ?case by simp
next
  case (Cons k ks)
  have other: "i \<noteq> k \<Longrightarrow> move_vel_B P (move_node_B P k s) i = move_vel_B P s i"
    by (simp add: move_node_B_eq move_vel_B_def is_dragged_def)
  have IH: "v (fold (move_node_B P) ks (move_node_B P k s)) i =
      (if i \<in> set ks then move_vel_B P (move_node_B P k s) i else v (move_node_B P k s) i) \<and>
    x (fold (move_node_B P) ks (move_node_B P k s)) i =
      (if i \<in> set ks then integrate P (x (move_node_B P k s) i) (move_vel_B P (move_node_B P k s) i)
       else x (move_node_B P k s) i)"
    using Cons by simp
  have vk: "v (move_node_B P k s) = (v s)(k := move_vel_B P s k)"
    and xk: "x (move_node_B P k s) = (x s)(k := integrate P (x s k) (move_vel_B P s k))"
    by (simp_all add: move_node_B_eq)
  show ?case
  proof (cases "i = k")
    case True
    with Cons.prems have "i \<notin> set ks" by simp
    with IH True show ?thesis by (simp add: vk xk)
  next
    case False
    with IH other show ?thesis by (simp add: vk xk)
  qed
qed

lemma init_at:
  "x (fold (init_node P ro) ks s) i =
     (if i \<in> set ks
      then Some (Vec3 (real_of_int (fst i) * quad_size P - 1 / 2 + fst ro) (6 / 10)
                      (real_of_int (snd i) * quad_size P - 1 / 2 + snd ro))
      else x s i) \<and>
   v (fold (init_node P ro) ks s) i = (if i \<in> set ks then Some (Vec3 0 0 0) else v s i)"
  by (induction ks arbitrary: s) (auto simp: init_node_def Let_def)

lemma pin_at:
  "x (fold (pin_node P) ks s) (i, n P - 1) =
     (if i \<in> set ks then Some (Vec3 (real_of_int i * quad_size P - 1 / 2) (6 / 10) (1 / 2))
      else x s (i, n P - 1)) \<and>
   v (fold (pin_node P) ks s) (i, n P - 1) =
     (if i \<in> set ks then Some (Vec3 0 0 0) else v s (i, n P - 1))"
  by (induction ks arbitrary: s) (auto simp: pin_node_def Let_def)

lemma substep_B_pinned:
  assumes "0 \<le> i" "i < n P"
  shows "x (substep_B P s) (i, n P - 1) = Some (Vec3 (real_of_int i * quad_size P - 1 / 2) (6 / 10) (1 / 2))"
    and "v (substep_B P s) (i, n P - 1) = Some (Vec3 0 0 0)"
  using assms by (simp_all add: substep_B_def pin_pass_def pin_at)

lemma one_bit: "(w :: 1 word) = 0 \<or> w = 1"
proof -
  have "unat w < 2" using unsigned_less [of w, where 'a=nat] by simp
  then have "unat w = 0 \<or> unat w = 1" by linarith
  then show ?thesis by (auto simp: word_unat_eq_iff)
qed

subsection \<open>Vector algebra and the collision step\<close>

lemma dot_commute: "dot p q = dot q p"
  by (simp add: dot_def mult.commute)

lemma dot_sub_left: "dot (p - q) r = dot p r - dot q r"
  by (simp add: dot_def algebra_simps)

lemma dot_add_left: "dot (p + q) r = dot p r + dot q r"
  by (simp add: dot_def algebra_simps)

lemma dot_smul_left: "dot (smul a p) q = a * dot p q"
  by (simp add: dot_def algebra_simps)

lemma dot_smul_right: "dot p (smul a q) = a * dot p q"
  by (simp add: dot_def algebra_simps)

lemma dot_self_nonneg: "0 \<le> dot p p"
  by (simp add: dot_def)

lemma dot_self_eq_0: "dot p p = 0 \<longleftrightarrow> p = Vec3 0 0 0"
  by (cases p) (simp add: dot_def add_nonneg_eq_0_iff)

lemma vnorm_nonneg: "0 \<le> vnorm p"
  by (simp add: vnorm_def dot_self_nonneg)

lemma vnorm_eq_0: "vnorm p = 0 \<longleftrightarrow> p = Vec3 0 0 0"
  by (simp add: vnorm_def dot_self_eq_0)

lemma vnorm_sq: "vnorm p * vnorm p = dot p p"
  by (simp add: vnorm_def dot_self_nonneg)

lemma diff_eq_zero_vec: "p - q = Vec3 0 0 0 \<longleftrightarrow> p = q"
  using right_minus_eq [of p q] by (simp add: zero_vec3_def)

lemma normalized_Some:
  "p \<noteq> Vec3 0 0 0 \<Longrightarrow> normalized p = Some (smul (1 / vnorm p) p)"
  by (simp add: normalized_def vnorm_eq_0)

lemma normalized_unit:
  assumes "normalized p = Some d"
  shows "dot d d = 1"
proof -
  from assms have nz: "vnorm p \<noteq> 0" and d: "d = smul (1 / vnorm p) p"
    by (auto simp: normalized_def split: if_splits)
  have "dot d d = (1 / vnorm p) * (1 / vnorm p) * dot p p"
    by (simp add: d dot_smul_left dot_smul_right)
  also have "\<dots> = (1 / vnorm p) * (1 / vnorm p) * (vnorm p * vnorm p)"
    by (simp add: vnorm_sq)
  also have "\<dots> = 1" using nz by simp
  finally show ?thesis .
qed

lemma collide_defined:
  assumes "vnorm (p - c) \<le> r" "p \<noteq> c"
  shows "\<exists>nrm. normalized (p - c) = Some nrm \<and>
     collide c r (Some p) (Some w) = Some (w - smul (min (dot w nrm) 0) nrm) \<and>
     0 \<le> dot (w - smul (min (dot w nrm) 0) nrm) nrm"
proof -
  from assms(2) have "p - c \<noteq> Vec3 0 0 0" by (simp add: diff_eq_zero_vec)
  then obtain nrm where nrm: "normalized (p - c) = Some nrm"
    by (auto simp: normalized_Some)
  have unit: "dot nrm nrm = 1" by (rule normalized_unit [OF nrm])
  have "dot (w - smul (min (dot w nrm) 0) nrm) nrm = dot w nrm - min (dot w nrm) 0"
    by (simp add: dot_sub_left dot_smul_left unit)
  then have "0 \<le> dot (w - smul (min (dot w nrm) 0) nrm) nrm" by simp
  moreover have "collide c r (Some p) (Some w) = Some (w - smul (min (dot w nrm) 0) nrm)"
    using assms(1) nrm by (simp add: collide_def)
  ultimately show ?thesis using nrm by blast
qed

lemma collide_outside:
  "\<not> vnorm (p - c) \<le> r \<Longrightarrow> collide c r (Some p) vo = vo"
  by (simp add: collide_def)

lemma dot_add_right: "dot r (p + q) = dot r p + dot r q"
  by (simp add: dot_def algebra_simps)

lemma dot_sub_right: "dot r (p - q) = dot r p - dot r q"
  by (simp add: dot_def algebra_simps)

lemma vnorm_axis: "vnorm (Vec3 a 0 0) = \<bar>a\<bar>" "vnorm (Vec3 0 a 0) = \<bar>a\<bar>" "vnorm (Vec3 0 0 a) = \<bar>a\<bar>"
  by (simp_all add: vnorm_def dot_def)

lemma card_grid: "card {k. in_grid m k} = nat m * nat m"
  using distinct_card [OF distinct_grid, of m] by (simp add: set_grid length_grid)

lemma initialize_at:
  "in_grid (n P) i \<Longrightarrow>
   x (initialize_mass_points P r0 r1 s) i =
     Some (Vec3 (real_of_int (fst i) * quad_size P - 1 / 2 + (r0 - 1 / 2) * (1 / 10)) (6 / 10)
                (real_of_int (snd i) * quad_size P - 1 / 2 + (r1 - 1 / 2) * (1 / 10))) \<and>
   v (initialize_mass_points P r0 r1 s) i = Some (Vec3 0 0 0)"
  by (simp add: initialize_mass_points_def init_at set_grid)

subsection \<open>The scan of \<open>pick_node\<close>\<close>

lemma sorted_wrt_concat_map:
  assumes "\<And>a. a \<in> set xs \<Longrightarrow> sorted_wrt R (f a)"
    and "sorted_wrt (\<lambda>a b. \<forall>p \<in> set (f a). \<forall>q \<in> set (f b). R p q) xs"
  shows "sorted_wrt R (concat (map f xs))"
  using assms by (induction xs) (auto simp: sorted_wrt_append)

lemma sorted_grid: "sorted_wrt earlier (grid m)"
  unfolding grid_def
proof (rule sorted_wrt_concat_map)
  fix a :: int
  have "sorted_wrt (\<lambda>j j'. earlier (a, j) (a, j')) [0..m - 1]"
    by (rule sorted_wrt_mono_rel [OF _ sorted_wrt_upto]) (simp add: earlier_def)
  then show "sorted_wrt earlier (map (\<lambda>j. (a, j)) [0..m - 1])"
    by (simp add: sorted_wrt_map)
next
  show "sorted_wrt (\<lambda>a b. \<forall>p\<in>set (map (Pair a) [0..m - 1]). \<forall>q\<in>set (map (Pair b) [0..m - 1]). earlier p q)
     [0..m - 1]"
    by (rule sorted_wrt_mono_rel [OF _ sorted_wrt_upto]) (auto simp: earlier_def)
qed

lemma grid_split_earlier:
  assumes "grid m = pre @ k # post" "in_grid m k'" "earlier k' k"
  shows "k' \<in> set pre"
proof -
  from sorted_grid [of m] assms(1) have "\<forall>b \<in> set post. earlier k b"
    by (simp add: sorted_wrt_append)
  then have "k' \<notin> set post" using assms(3) by (auto simp: earlier_def)
  moreover have "k' \<noteq> k" using assms(3) by (auto simp: earlier_def)
  moreover have "k' \<in> set (grid m)" using assms(2) by (simp add: set_grid)
  ultimately show ?thesis using assms(1) by auto
qed

lemma pick_fold:
  "fold (pick_step ro rd xf) ks (None, 10 ^ 10) = (node, m) \<Longrightarrow>
    (case node of
       None \<Rightarrow> m = 10 ^ 10 \<and> (\<forall>k\<in>set ks. \<forall>d. node_dist ro rd xf k = Some d \<longrightarrow> \<not> d < 2 / 100)
     | Some k \<Rightarrow> node_dist ro rd xf k = Some m \<and> m < 2 / 100 \<and>
         (\<exists>pre post. ks = pre @ k # post \<and>
            (\<forall>k'\<in>set pre. \<forall>d. node_dist ro rd xf k' = Some d \<longrightarrow> m < d) \<and>
            (\<forall>k'\<in>set post. \<forall>d. node_dist ro rd xf k' = Some d \<longrightarrow> m \<le> d)))"
proof (induction ks arbitrary: node m rule: rev_induct)
  case Nil
  then show ?case by simp
next
  case (snoc k ks)
  obtain node0 m0 where acc: "fold (pick_step ro rd xf) ks (None, 10 ^ 10) = (node0, m0)"
    by (cases "fold (pick_step ro rd xf) ks (None, 10 ^ 10)")
  note IH = snoc.IH [OF acc]
  from snoc.prems acc have step: "pick_step ro rd xf k (node0, m0) = (node, m)" by simp
  have keep: ?case
    if eq: "node = node0" "m = m0"
      and far: "\<forall>d. node_dist ro rd xf k = Some d \<longrightarrow>
          (node0 = None \<longrightarrow> \<not> d < 2 / 100) \<and> (node0 \<noteq> None \<longrightarrow> m0 \<le> d)"
  proof (cases node0)
    case None
    with IH have "m0 = 10 ^ 10"
      and "\<forall>k\<in>set ks. \<forall>d. node_dist ro rd xf k = Some d \<longrightarrow> \<not> d < 2 / 100" by simp_all
    moreover have "\<forall>d. node_dist ro rd xf k = Some d \<longrightarrow> \<not> d < 2 / 100" using far None by blast
    ultimately show ?thesis unfolding eq None by simp
  next
    case (Some k0)
    with IH have c1: "node_dist ro rd xf k0 = Some m0" and c2: "m0 < 2 / 100" by simp_all
    from IH Some obtain pre post where sp: "ks = pre @ k0 # post"
      "\<forall>k'\<in>set pre. \<forall>d. node_dist ro rd xf k' = Some d \<longrightarrow> m0 < d"
      "\<forall>k'\<in>set post. \<forall>d. node_dist ro rd xf k' = Some d \<longrightarrow> m0 \<le> d"
      by auto
    have lastk: "\<forall>d. node_dist ro rd xf k = Some d \<longrightarrow> m0 \<le> d" using far Some by auto
    have A: "ks @ [k] = pre @ k0 # (post @ [k])" using sp(1) by simp
    have B: "\<forall>k'\<in>set (post @ [k]). \<forall>d. node_dist ro rd xf k' = Some d \<longrightarrow> m0 \<le> d"
      using sp(3) lastk by simp
    have ex: "\<exists>pre post. ks @ [k] = pre @ k0 # post \<and>
            (\<forall>k'\<in>set pre. \<forall>d. node_dist ro rd xf k' = Some d \<longrightarrow> m0 < d) \<and>
            (\<forall>k'\<in>set post. \<forall>d. node_dist ro rd xf k' = Some d \<longrightarrow> m0 \<le> d)"
      by (rule exI [of _ pre], rule exI [of _ "post @ [k]"]) (rule conjI [OF A conjI [OF sp(2) B]])
    show ?thesis unfolding eq Some option.case by (rule conjI [OF c1 conjI [OF c2 ex]])
  qed
  show ?case
  proof (cases "xf k")
    case None
    with step have eq: "node = node0" "m = m0" by (simp_all add: pick_step_def)
    have "node_dist ro rd xf k = None" using None by (simp add: node_dist_def)
    then show ?thesis using keep [OF eq] by simp
  next
    case (Some pos)
    define d where "d = ray_dist ro rd pos"
    have nd: "node_dist ro rd xf k = Some d" using Some by (simp add: node_dist_def d_def)
    show ?thesis
    proof (cases "d < 2 / 100 \<and> d < m0")
      case True
      with step Some have eq: "node = Some k" "m = d"
        by (simp_all add: pick_step_def d_def Let_def)
      have all: "\<forall>k'\<in>set ks. \<forall>d'. node_dist ro rd xf k' = Some d' \<longrightarrow> d < d'"
      proof (cases node0)
        case None
        with IH have "\<forall>k\<in>set ks. \<forall>d. node_dist ro rd xf k = Some d \<longrightarrow> \<not> d < 2 / 100" by simp
        with True show ?thesis by fastforce
      next
        case (Some k0)
        with IH obtain pre post where sp: "ks = pre @ k0 # post"
          "node_dist ro rd xf k0 = Some m0"
          "\<forall>k'\<in>set pre. \<forall>d. node_dist ro rd xf k' = Some d \<longrightarrow> m0 < d"
          "\<forall>k'\<in>set post. \<forall>d. node_dist ro rd xf k' = Some d \<longrightarrow> m0 \<le> d"
          by auto
        show ?thesis
        proof (intro ballI allI impI)
          fix k' d' assume k': "k' \<in> set ks" "node_dist ro rd xf k' = Some d'"
          from k'(1) sp(1) have "k' \<in> set pre \<or> k' = k0 \<or> k' \<in> set post" by auto
          then have "m0 \<le> d'" using sp(2,3,4) k'(2) by fastforce
          with True show "d < d'" by simp
        qed
      qed
      have A: "ks @ [k] = ks @ k # []" by simp
      have B: "\<forall>k'\<in>set []. \<forall>d'. node_dist ro rd xf k' = Some d' \<longrightarrow> d \<le> d'" by simp
      have ex: "\<exists>pre post. ks @ [k] = pre @ k # post \<and>
        (\<forall>k'\<in>set pre. \<forall>d'. node_dist ro rd xf k' = Some d' \<longrightarrow> d < d') \<and>
        (\<forall>k'\<in>set post. \<forall>d'. node_dist ro rd xf k' = Some d' \<longrightarrow> d \<le> d')"
        by (rule exI [of _ ks], rule exI [of _ "[]"]) (rule conjI [OF A conjI [OF all B]])
      from True have c2: "d < 2 / 100" by simp
      show ?thesis unfolding eq option.case by (rule conjI [OF nd conjI [OF c2 ex]])
    next
      case False
      with step Some have eq: "node = node0" "m = m0"
        by (auto simp: pick_step_def d_def Let_def split: if_splits)
      have "(node0 = None \<longrightarrow> \<not> d < 2 / 100) \<and> (node0 \<noteq> None \<longrightarrow> m0 \<le> d)"
      proof (cases node0)
        case None
        from IH None have "m0 = 10 ^ 10" by simp
        with False None show ?thesis by auto
      next
        case (Some k0)
        from IH Some have "m0 < 2 / 100" by simp
        with False Some show ?thesis by auto
      qed
      then show ?thesis using keep [OF eq] nd by simp
    qed
  qed
qed

lemma ray_dist_least:
  assumes "vnorm rd = 1"
  shows "ray_dist ro rd pos \<le> vnorm (ro + smul t rd - pos)"
proof -
  define t0 where "t0 = dot (pos - ro) rd"
  define a where "a = ro + smul t0 rd - pos"
  define b where "b = ro + smul t rd - pos"
  have unit: "dot rd rd = 1" using vnorm_sq [of rd] assms by simp
  have ba: "b = a + smul (t - t0) rd"
    by (simp add: a_def b_def vec3_eq_iff algebra_simps)
  have orth: "dot a rd = 0"
    by (simp add: a_def t0_def dot_sub_left dot_add_left dot_smul_left unit)
  have orth': "dot rd a = 0" using orth by (simp add: dot_commute)
  have "dot b b = dot a a + (t - t0) * (t - t0)"
    unfolding ba
    by (simp add: dot_add_left dot_add_right dot_smul_left dot_smul_right orth orth' unit)
  then have "dot a a \<le> dot b b" by simp
  then have "vnorm a \<le> vnorm b" by (simp add: vnorm_def)
  then show ?thesis by (simp add: ray_dist_def Let_def a_def b_def t0_def)
qed

lemma ray_dist_attained:
  "ray_dist ro rd pos = vnorm (ro + smul (dot (pos - ro) rd) rd - pos)"
  by (simp add: ray_dist_def Let_def)

lemma ray_dist_sq:
  assumes "vnorm rd = 1"
  shows "(ray_dist ro rd pos)\<^sup>2 = dot (pos - ro) (pos - ro) - (dot (pos - ro) rd)\<^sup>2"
proof -
  define u where "u = pos - ro"
  define t0 where "t0 = dot u rd"
  have unit: "dot rd rd = 1" using vnorm_sq [of rd] assms by simp
  have e: "ro + smul t0 rd - pos = smul t0 rd - u"
    by (simp add: u_def vec3_eq_iff)
  have "dot (smul t0 rd - u) (smul t0 rd - u) = dot u u - t0 * t0"
    by (simp add: dot_sub_left dot_sub_right dot_smul_left dot_smul_right unit
        dot_commute [of rd u] t0_def [symmetric] algebra_simps)
  moreover have "(vnorm (smul t0 rd - u))\<^sup>2 = dot (smul t0 rd - u) (smul t0 rd - u)"
    by (simp add: vnorm_def dot_self_nonneg)
  ultimately have "(vnorm (ro + smul t0 rd - pos))\<^sup>2 = dot u u - t0\<^sup>2"
    unfolding e by (simp only: power2_eq_square)
  then show ?thesis
    by (simp add: ray_dist_attained u_def t0_def)
qed

lemma grid_2: "grid 2 = [(0, 0), (0, 1), (1, 0), (1, 1)]"
  by (simp add: grid_def upto_rec1)

lemma pick_example_result:
  "pick_node params_2 pick_example (Vec3 (1 / 100) 1 0) (Vec3 0 (- 1) 0) = Some (0, 0)"
  by (simp add: pick_node_def params_2_def grid_2 pick_step_def pick_example_def fields0_def
      ray_dist_def Let_def dot_def smul_def plus_vec3_def minus_vec3_def vnorm_axis)

subsection \<open>Undefined values in the spring pass\<close>

lemma fadd_None [simp]: "fadd None b = None" "fadd a None = None"
  by (simp_all add: fadd_def split: option.splits)

lemma fsmul_None [simp]: "fsmul a None = None"
  by (simp add: fsmul_def)

lemma fadd_Some [simp]: "fadd (Some p) (Some q) = Some (p + q)"
  by (simp add: fadd_def)

lemma fsmul_Some [simp]: "fsmul a (Some p) = Some (smul a p)"
  by (simp add: fsmul_def)

lemma spring_accum_None: "spring_accum P s i off None = None"
  by (simp add: spring_accum_def Let_def split: option.splits)

lemma fold_spring_accum_None: "fold (spring_accum P s i) offs None = None"
  by (induction offs) (simp_all add: spring_accum_None)

lemma normalized_zero [simp]: "normalized 0 = None"
  by (simp add: normalized_def vnorm_def dot_def)

lemma spring_accum_coincide:
  assumes "in_grid (n P) (idx_add i off)" "x s i = x s (idx_add i off)"
  shows "spring_accum P s i off force = None"
  using assms
  by (simp add: spring_accum_def Let_def spring_elastic_def split: option.splits)

lemma spring_force_coincide:
  assumes "off \<in> set (spring_offsets s)" "in_grid (n P) (idx_add i off)"
    "x s i = x s (idx_add i off)"
  shows "spring_force P s i = None"
proof -
  from assms(1) obtain as bs where sp: "spring_offsets s = as @ off # bs"
    by (auto dest: split_list)
  show ?thesis
    unfolding spring_force_def sp
    by (simp add: spring_accum_coincide [OF assms(2,3)] fold_spring_accum_None)
qed

lemma v_spring_fold_other:
  "i \<notin> set ks \<Longrightarrow> v (fold (spring_node P) ks s) i = v s i"
  by (induction ks arbitrary: s) (simp_all add: spring_node_def)

lemma x_spring_fold: "x (fold (spring_node P) ks s) = x s"
  by (induction ks arbitrary: s) (simp_all add: spring_node_def)

lemma offsets_spring_fold: "spring_offsets (fold (spring_node P) ks s) = spring_offsets s"
  by (induction ks arbitrary: s) (simp_all add: spring_node_def)

lemma spring_pass_coincide:
  assumes "i \<in> set order" "off \<in> set (spring_offsets s)" "in_grid (n P) (idx_add i off)"
    "x s i = x s (idx_add i off)"
  shows "v (spring_pass P order s) i = None"
proof -
  from assms(1) obtain pre post where sp: "order = pre @ i # post" "i \<notin> set post"
    by (auto dest: split_list_last)
  define s1 where "s1 = fold (spring_node P) pre s"
  have "spring_force P s1 i = None"
    by (rule spring_force_coincide [of off])
       (simp_all add: s1_def x_spring_fold offsets_spring_fold assms)
  then have "v (spring_node P i s1) i = None" by (simp add: spring_node_def)
  then show ?thesis
    by (simp add: spring_pass_def sp s1_def v_spring_fold_other)
qed

lemma collide_None [simp]: "collide c r xo None = None"
  by (simp add: collide_def Let_def split: option.splits)

lemma damp_None [simp]: "damp P None = None"
  by (simp add: damp_def)

lemma integrate_None [simp]: "integrate P xo None = None"
  by (simp add: integrate_def)

lemma offsets_gravity_pass: "spring_offsets (gravity_pass P order s) = spring_offsets s"
  using env_gravity_pass [of P order s] by (simp add: env_of_def)

lemma substep_A_coincide:
  assumes "in_grid (n P) i" "off \<in> set (spring_offsets s)" "in_grid (n P) (idx_add i off)"
    "x s i = x s (idx_add i off)"
  shows "v (substep_A P s) i = None" "x (substep_A P s) i = None"
proof -
  define s1 where "s1 = gravity_pass P (grid (n P)) s"
  define s2 where "s2 = spring_pass P (grid (n P)) s1"
  have mem: "i \<in> set (grid (n P))" using assms(1) by (simp add: set_grid)
  have "v s2 i = None"
    unfolding s2_def
    by (rule spring_pass_coincide [OF mem, of off])
       (simp_all add: s1_def offsets_gravity_pass x_gravity_pass assms)
  then have mv: "move_vel_A P s2 i = None" by (simp add: move_vel_A_def)
  have st: "substep_A P s = move_pass_A P (grid (n P)) s2"
    by (simp add: substep_A_def s1_def s2_def)
  show "v (substep_A P s) i = None" "x (substep_A P s) i = None"
    using move_pass_A_at [OF distinct_grid, of P "n P" s2 i] mem mv by (simp_all add: st)
qed

lemma pin_other:
  "snd j \<noteq> n P - 1 \<Longrightarrow>
   x (fold (pin_node P) ks s) j = x s j \<and> v (fold (pin_node P) ks s) j = v s j"
  by (induction ks arbitrary: s) (auto simp: pin_node_def Let_def)

lemma dragged_spring_pass: "is_dragged (spring_pass P order s) i = is_dragged s i"
  using env_spring_pass [of P order s] by (simp add: env_of_def is_dragged_def)

lemma dragged_gravity_pass: "is_dragged (gravity_pass P order s) i = is_dragged s i"
  using env_gravity_pass [of P order s] by (simp add: env_of_def is_dragged_def)

lemma substep_B_coincide:
  assumes "in_grid (n P) i" "off \<in> set (spring_offsets s)" "in_grid (n P) (idx_add i off)"
    "x s i = x s (idx_add i off)" "\<not> is_dragged s i" "snd i \<noteq> n P - 1"
  shows "v (substep_B P s) i = None" "x (substep_B P s) i = None"
proof -
  define s1 where "s1 = gravity_pass P (grid (n P)) s"
  define s2 where "s2 = spring_pass P (grid (n P)) s1"
  have mem: "i \<in> set (grid (n P))" using assms(1) by (simp add: set_grid)
  have "v s2 i = None"
    unfolding s2_def
    by (rule spring_pass_coincide [OF mem, of off])
       (simp_all add: s1_def offsets_gravity_pass x_gravity_pass assms)
  moreover have "\<not> is_dragged s2 i"
    using assms(5) by (simp add: s2_def s1_def dragged_spring_pass dragged_gravity_pass)
  ultimately have mv: "move_vel_B P s2 i = None" by (simp add: move_vel_B_def)
  have st: "substep_B P s = pin_pass P (move_pass_B P (grid (n P)) s2)"
    by (simp add: substep_B_def s1_def s2_def)
  show "v (substep_B P s) i = None" "x (substep_B P s) i = None"
    using move_pass_B_at [OF distinct_grid, of P "n P" s2 i] mem mv
      pin_other [OF assms(6), of "[0..n P - 1]" "move_pass_B P (grid (n P)) s2"]
    by (simp_all add: st pin_pass_def)
qed

lemma offsets_True: "offsets_of True = [(- 1, - 1), (- 1, 0), (- 1, 1), (0, - 1), (0, 1), (1, - 1), (1, 0), (1, 1)]"
  by (simp add: offsets_of_def upto_rec1)

lemma offsets_False: "offsets_of False =
  [(- 2, 0), (- 1, - 1), (- 1, 0), (- 1, 1), (0, - 2), (0, - 1), (0, 1), (0, 2), (1, - 1), (1, 0), (1, 1), (2, 0)]"
  by (simp add: offsets_of_def upto_rec1)

lemma env_initialize: "env_of (initialize_mass_points P r0 r1 s) = env_of s"
  unfolding initialize_mass_points_def Let_def by (rule fold_env) (rule env_init_node)

lemma coincide_example_facts:
  "x coincide_example (0, 0) = Some (Vec3 (- (1 / 2)) (6 / 10) (- (1 / 2)))"
  "x coincide_example (0, 1) = Some (Vec3 (- (1 / 2)) (6 / 10) (- (1 / 2)))"
  "v coincide_example (0, 0) = Some (Vec3 0 0 0)"
  "v coincide_example (0, 1) = Some (Vec3 0 0 0)"
  "spring_offsets coincide_example = offsets_of True"
  "dragging coincide_example = 0"
proof -
  have g: "in_grid (n params_A) (0, 0)" "in_grid (n params_A) (0, 1)"
    by (simp_all add: in_grid_def params_A_def)
  show "x coincide_example (0, 0) = Some (Vec3 (- (1 / 2)) (6 / 10) (- (1 / 2)))"
    "x coincide_example (0, 1) = Some (Vec3 (- (1 / 2)) (6 / 10) (- (1 / 2)))"
    "v coincide_example (0, 0) = Some (Vec3 0 0 0)"
    "v coincide_example (0, 1) = Some (Vec3 0 0 0)"
    by (simp_all add: coincide_example_def Let_def initialize_at [OF g(1)] initialize_at [OF g(2)])
  have "env_of coincide_example = env_of (fields0\<lparr> spring_offsets := offsets_of True \<rparr>)"
    using env_initialize [of params_A "1 / 2" "1 / 2" "fields0\<lparr> spring_offsets := offsets_of True \<rparr>"]
    by (simp add: coincide_example_def Let_def env_of_def)
  then show "spring_offsets coincide_example = offsets_of True" "dragging coincide_example = 0"
    by (simp_all add: env_of_def fields0_def)
qed

subsection \<open>The in-place spring pass without dashpot damping\<close>

lemma spring_dashpot_zero:
  "dashpot_damping P = 0 \<Longrightarrow>
   spring_dashpot P xi xj vi vj = map_option (\<lambda>d. Vec3 0 0 0) (normalized (xi - xj))"
  by (simp add: spring_dashpot_def Let_def smul_def split: option.splits)

lemma spring_accum_cong:
  assumes "dashpot_damping P = 0" "x s' = x s"
    "\<And>j. v s' j = None \<longleftrightarrow> v s j = None"
  shows "spring_accum P s' i off f = spring_accum P s i off f"
proof -
  have a: "v s' i = None \<longleftrightarrow> v s i = None" and b: "v s' (idx_add i off) = None \<longleftrightarrow> v s (idx_add i off) = None"
    using assms(3) by blast+
  show ?thesis
    using a b
    by (cases "v s' i"; cases "v s i"; cases "v s' (idx_add i off)"; cases "v s (idx_add i off)")
       (simp_all add: spring_accum_def Let_def assms(2) spring_dashpot_zero [OF assms(1)]
          split: option.splits)
qed

lemma spring_force_cong:
  assumes "dashpot_damping P = 0" "x s' = x s" "spring_offsets s' = spring_offsets s"
    "\<And>j. v s' j = None \<longleftrightarrow> v s j = None"
  shows "spring_force P s' i = spring_force P s i"
  unfolding spring_force_def assms(3)
  by (rule arg_cong [where f = "\<lambda>g. fold g (spring_offsets s) (Some (Vec3 0 0 0))"])
     (rule ext, rule ext, rule spring_accum_cong [OF assms(1,2,4)])

lemma original_dist_nonzero:
  assumes "quad_size P \<noteq> 0" "off \<noteq> (0, 0)"
  shows "original_dist P i (idx_add i off) \<noteq> 0"
proof -
  have "(real_of_int (fst off))\<^sup>2 + (real_of_int (snd off))\<^sup>2 \<noteq> 0"
    using assms(2) by (cases off) simp
  then show ?thesis using assms(1) by (simp add: original_dist_def idx_add_def power2_eq_square)
qed

lemma spring_accum_defined:
  assumes "regular P s" "in_grid (n P) i" "off \<in> set (spring_offsets s)"
  shows "\<exists>f'. spring_accum P s i off (Some f) = Some f'"
proof (cases "in_grid (n P) (idx_add i off)")
  case False
  then show ?thesis by (simp add: spring_accum_def)
next
  case True
  have mem: "i \<in> set (grid (n P))" "idx_add i off \<in> set (grid (n P))"
    using assms(2) True by (simp_all add: set_grid)
  from assms(1) mem obtain xi xj vi vj where d: "x s i = Some xi" "x s (idx_add i off) = Some xj"
    "v s i = Some vi" "v s (idx_add i off) = Some vj"
    unfolding regular_def by fastforce
  from assms(1,3) mem(1) True d have "xi \<noteq> xj" unfolding regular_def by fastforce
  then have nz: "xi - xj \<noteq> Vec3 0 0 0" by (simp add: diff_eq_zero_vec)
  from assms(1,3) have "off \<noteq> (0, 0)" "quad_size P \<noteq> 0" unfolding regular_def by auto
  then have od: "original_dist P i (idx_add i off) \<noteq> 0" by (simp add: original_dist_nonzero)
  show ?thesis
    using True d od
    by (simp add: spring_accum_def Let_def spring_elastic_def spring_dashpot_def normalized_Some [OF nz])
qed

lemma fold_defined:
  assumes "\<And>a f. a \<in> set as \<Longrightarrow> \<exists>f'. g a (Some f) = Some f'"
  shows "\<exists>f'. fold g as (Some f) = Some f'"
  using assms
proof (induction as arbitrary: f)
  case Nil
  show ?case by simp
next
  case (Cons a as)
  from Cons.prems [of a f] obtain f1 where "g a (Some f) = Some f1" by auto
  moreover from Cons.IH [of f1] Cons.prems obtain f2 where "fold g as (Some f1) = Some f2"
    by auto
  ultimately show ?case by simp
qed

lemma spring_force_defined:
  assumes "regular P s" "in_grid (n P) i"
  shows "\<exists>F. spring_force P s i = Some F"
  unfolding spring_force_def
  by (rule fold_defined) (rule spring_accum_defined [OF assms])

lemma spring_fold_inplace:
  assumes "dashpot_damping P = 0" "regular P s"
  shows "distinct ks \<Longrightarrow> set ks \<subseteq> set (grid (n P)) \<Longrightarrow> x s' = x s \<Longrightarrow>
    spring_offsets s' = spring_offsets s \<Longrightarrow> (\<And>j. v s' j = None \<longleftrightarrow> v s j = None) \<Longrightarrow>
    v (fold (spring_node P) ks s') i =
      (if i \<in> set ks then fadd (v s' i) (fsmul (dt P) (spring_force P s i)) else v s' i)"
proof (induction ks arbitrary: s')
  case Nil
  show ?case by simp
next
  case (Cons k ks)
  have fk: "spring_force P s' k = spring_force P s k"
    by (rule spring_force_cong [OF assms(1) Cons.prems(3,4,5)])
  have kin: "in_grid (n P) k" using Cons.prems(2) by (simp add: set_grid)
  from spring_force_defined [OF assms(2) kin] obtain F where F: "spring_force P s k = Some F" ..
  define s1 where "s1 = spring_node P k s'"
  have vs1: "v s1 = (v s')(k := fadd (v s' k) (Some (smul (dt P) F)))"
    by (simp add: s1_def spring_node_def fk F)
  have pat: "v s1 j = None \<longleftrightarrow> v s j = None" for j
    using Cons.prems(5) [of j] Cons.prems(5) [of k]
    by (cases "v s' k") (auto simp: vs1)
  have IH: "v (fold (spring_node P) ks s1) i =
      (if i \<in> set ks then fadd (v s1 i) (fsmul (dt P) (spring_force P s i)) else v s1 i)"
    using Cons.prems(1,2,3,4) pat
    by (intro Cons.IH) (simp_all add: s1_def spring_node_def)
  show ?case
  proof (cases "i = k")
    case True
    with Cons.prems(1) have "i \<notin> set ks" by simp
    with IH True show ?thesis by (simp add: s1_def [symmetric] vs1 F)
  next
    case False
    with IH show ?thesis by (simp add: s1_def [symmetric] vs1)
  qed
qed

lemma spring_pass_inplace:
  assumes "dashpot_damping P = 0" "regular P s" "distinct order" "set order \<subseteq> set (grid (n P))"
  shows "v (spring_pass P order s) =
         (\<lambda>i. if i \<in> set order then fadd (v s i) (fsmul (dt P) (spring_force P s i)) else v s i)"
  unfolding spring_pass_def
  by (rule ext) (rule spring_fold_inplace [OF assms(1,2,3,4)], simp_all)

lemma regular_initialize:
  assumes "(0, 0) \<notin> set (spring_offsets s0)" "quad_size P \<noteq> 0"
  shows "regular P (initialize_mass_points P r0 r1 s0)"
proof -
  have off: "spring_offsets (initialize_mass_points P r0 r1 s0) = spring_offsets s0"
    using env_initialize [of P r0 r1 s0] by (simp add: env_of_def)
  have pos: "x (initialize_mass_points P r0 r1 s0) i \<noteq> x (initialize_mass_points P r0 r1 s0) (idx_add i off)"
    if g: "in_grid (n P) i" "in_grid (n P) (idx_add i off)" and o: "off \<in> set (spring_offsets s0)"
    for i off
  proof -
    from o assms(1) have "off \<noteq> (0, 0)" by auto
    then have "fst off \<noteq> 0 \<or> snd off \<noteq> 0" by (cases off) auto
    moreover have "x (initialize_mass_points P r0 r1 s0) (idx_add i off) =
       Some (Vec3 (real_of_int (fst i + fst off) * quad_size P - 1 / 2 + (r0 - 1 / 2) * (1 / 10))
                  (6 / 10)
                  (real_of_int (snd i + snd off) * quad_size P - 1 / 2 + (r1 - 1 / 2) * (1 / 10)))"
      using initialize_at [OF g(2), of r0 r1 s0] by (simp add: idx_add_def)
    ultimately show ?thesis
      using assms(2) by (auto simp: initialize_at [OF g(1)] algebra_simps)
  qed
  have def: "x (initialize_mass_points P r0 r1 s0) i \<noteq> None \<and> v (initialize_mass_points P r0 r1 s0) i \<noteq> None"
    if "in_grid (n P) i" for i
    using that by (simp add: initialize_at)
  show ?thesis
    unfolding regular_def off set_grid
    using assms pos def by blast
qed

lemma initialize_params:
  "n P' = n P \<Longrightarrow> quad_size P' = quad_size P \<Longrightarrow>
   initialize_mass_points P' r0 r1 s = initialize_mass_points P r0 r1 s"
proof -
  assume a: "n P' = n P" "quad_size P' = quad_size P"
  have "init_node P' ro = init_node P ro" for ro
    by (rule ext, rule ext) (simp add: init_node_def a)
  then show ?thesis by (simp add: initialize_mass_points_def a)
qed

lemma regular_sheet_A: "regular params_A0 sheet_A"
proof -
  have e: "sheet_A = initialize_mass_points params_A0 (1 / 2) (1 / 2)
               (fields0\<lparr> spring_offsets := offsets_of True \<rparr>)"
    unfolding sheet_A_def by (rule initialize_params [symmetric]) (simp_all add: params_A0_def)
  show ?thesis
    unfolding e by (rule regular_initialize) (simp_all add: offsets_True params_A0_def params_A_def)
qed

lemma grid_head:
  assumes "2 \<le> m"
  shows "\<exists>rest. grid m = (0, 0) # (0, 1) # rest"
proof -
  have a: "[0..m - 1] = 0 # 1 # [2..m - 1]"
    using assms by (simp add: upto_rec1 [of 0] upto_rec1 [of 1])
  show ?thesis
    unfolding grid_def by (subst a, subst a) simp
qed

lemma spring_pass_second:
  assumes "2 \<le> m"
  shows "v (spring_pass P (grid m) s) (0, 1) = v (spring_node P (0, 1) (spring_node P (0, 0) s)) (0, 1)"
proof -
  from grid_head [OF assms] obtain rest where g: "grid m = (0, 0) # (0, 1) # rest" ..
  with distinct_grid [of m] have "(0, 1) \<notin> set rest" by simp
  then show ?thesis by (simp add: spring_pass_def g v_spring_fold_other)
qed

lemmas spring_eval = spring_force_def line_example_def offsets_True spring_accum_def idx_add_def
      in_grid_def params_A_def fields0_def Let_def spring_elastic_def spring_dashpot_def
      minus_vec3_def plus_vec3_def vnorm_axis normalized_def original_dist_def smul_def dot_def
      spring_node_def fadd_def fsmul_def

lemma line_example_in_place: "v (spring_node params_A (0, 1) (spring_node params_A (0, 0) line_example)) (0, 1) =
  Some (Vec3 ((23040000 / sqrt 2 + (11430000 + (152700000000 + 153600000000 / sqrt 2) / 409600)) / 3200) 0 0)"
  by (simp add: spring_eval)

lemma line_example_reference: "v (spring_pass_ref params_A (grid (n params_A)) line_example) (0, 1) =
  Some (Vec3 ((23040000 / sqrt 2 + 11430000) / 3200) 0 0)"
  by (simp add: spring_pass_ref_def set_grid spring_eval)

lemma regular_line_example: "regular params_A0 line_example"
  unfolding regular_def
  by (auto simp: line_example_def offsets_True idx_add_def fields0_def params_A0_def params_A_def)

lemma line_example_reference0:
  "v (spring_pass_ref params_A0 (grid (n params_A0)) line_example) (0, 1) =
     Some (Vec3 ((23040000 / sqrt 2 + 11430000) / 3200) 0 0)"
  by (simp add: spring_pass_ref_def set_grid params_A0_def spring_eval)

lemma line_example_row_major:
  "v (spring_pass params_A (grid (n params_A)) line_example) (0, 1) =
     Some (Vec3 ((23040000 / sqrt 2 + (11430000 + (152700000000 + 153600000000 / sqrt 2) / 409600)) / 3200) 0 0)"
proof -
  have m: "(2 :: int) \<le> n params_A" by (simp add: params_A_def)
  show ?thesis unfolding spring_pass_second [OF m] by (rule line_example_in_place)
qed

lemma line_example_values_differ:
  "Some (Vec3 ((23040000 / sqrt 2 + (11430000 + (152700000000 + 153600000000 / sqrt 2) / 409600)) / 3200) 0 0)
     \<noteq> Some (Vec3 ((23040000 / sqrt 2 + 11430000) / 3200) 0 0)"
proof -
  have "(0 :: real) < (152700000000 + 153600000000 / sqrt 2) / 409600"
    by (intro divide_pos_pos add_pos_pos) simp_all
  then have "23040000 / sqrt 2 + (11430000 + (152700000000 + 153600000000 / sqrt 2) / 409600)
      \<noteq> 23040000 / sqrt 2 + 11430000"
    by linarith
  then show ?thesis by simp
qed

lemma line_example_first:
  "v (spring_pass params_A ((0, 1) # removeAll (0, 1) (grid (n params_A))) line_example) (0, 1) =
     Some (Vec3 ((23040000 / sqrt 2 + 11430000) / 3200) 0 0)"
proof -
  have mem: "(0, 1) \<in> set (grid (n params_A))"
    by (simp add: set_grid in_grid_def params_A_def)
  have "v (spring_pass params_A ((0, 1) # removeAll (0, 1) (grid (n params_A))) line_example) (0, 1)
      = v (spring_node params_A (0, 1) line_example) (0, 1)"
    by (simp add: spring_pass_def v_spring_fold_other)
  also have "\<dots> = v (spring_pass_ref params_A (grid (n params_A)) line_example) (0, 1)"
    using mem by (simp add: spring_node_def spring_pass_ref_def)
  finally show ?thesis by (simp add: line_example_reference)
qed

lemma line_example_orders:
  "distinct ((0, 1) # removeAll (0, 1) (grid (n params_A)))"
  "set ((0, 1) # removeAll (0, 1) (grid (n params_A))) = set (grid (n params_A))"
proof -
  have mem: "(0, 1) \<in> set (grid (n params_A))"
    by (simp add: set_grid in_grid_def params_A_def)
  show "distinct ((0, 1) # removeAll (0, 1) (grid (n params_A)))"
    by (simp add: distinct_removeAll distinct_grid)
  show "set ((0, 1) # removeAll (0, 1) (grid (n params_A))) = set (grid (n params_A))"
    using mem by auto
qed

subsection \<open>Reciprocal forces and their sum over the grid\<close>

lemma smul_neg: "smul a (- p) = - smul a p"
  by (simp add: vec3_eq_iff)

lemma smul_add: "smul a (p + q) = smul a p + smul a q"
  by (simp add: vec3_eq_iff algebra_simps)

lemma smul_zero: "smul a 0 = 0"
  by (simp add: vec3_eq_iff)

lemma smul_one: "smul 1 p = p"
  by (simp add: vec3_eq_iff)

lemma zero_smul: "smul 0 p = 0"
  by (simp add: vec3_eq_iff)

lemma Vec3_zero: "Vec3 0 0 0 = 0"
  by (simp add: zero_vec3_def)

lemma dot_neg_neg: "dot (- p) (- q) = dot p q"
  by (simp add: dot_def)

lemma vnorm_neg: "vnorm (- p) = vnorm p"
  by (simp add: vnorm_def dot_neg_neg)

lemma normalized_neg: "normalized (- p) = map_option uminus (normalized p)"
  by (simp add: normalized_def vnorm_neg smul_neg)

lemma original_dist_sym: "original_dist P j i = original_dist P i j"
  by (simp add: original_dist_def power2_commute [of "real_of_int (fst j)"]
      power2_commute [of "real_of_int (snd j)"])

lemma spring_elastic_swap:
  "spring_elastic P j i xj xi = map_option uminus (spring_elastic P i j xi xj)"
proof -
  have e: "xj - xi = - (xi - xj)" by simp
  show ?thesis
    unfolding spring_elastic_def Let_def e normalized_neg vnorm_neg original_dist_sym [of P j i]
    by (cases "normalized (xi - xj)") (simp_all add: smul_neg)
qed

lemma spring_dashpot_swap:
  "spring_dashpot P xj xi vj vi = map_option uminus (spring_dashpot P xi xj vi vj)"
proof -
  have e: "xj - xi = - (xi - xj)" by simp
  have d: "dot (vj - vi) (- a) = dot (vi - vj) a" for a
    by (simp add: dot_def algebra_simps)
  show ?thesis
    unfolding spring_dashpot_def Let_def e normalized_neg
    by (cases "normalized (xi - xj)") (simp_all add: smul_neg d)
qed

lemma edge_force_swap: "edge_force P s j i = - edge_force P s i j"
  unfolding edge_force_def
  by (cases "x s i"; cases "x s j")
     (simp_all add: spring_elastic_swap [of P j i] split: option.splits)

lemma neg_self_vec: "(p :: vec3) = - p \<Longrightarrow> p = 0"
  by (simp add: vec3_eq_iff)

lemma fold_accum_sum:
  assumes "\<And>a f. a \<in> set as \<Longrightarrow> g a (Some f) = Some (f + h a)"
  shows "fold g as (Some f) = Some (f + sum_list (map h as))"
  using assms by (induction as arbitrary: f) (simp_all add: add.assoc)

lemma spring_accum_edge:
  assumes "dashpot_damping P = 0" "regular P s" "in_grid (n P) i" "off \<in> set (spring_offsets s)"
  shows "spring_accum P s i off (Some f) =
    Some (f + (if in_grid (n P) (idx_add i off) then edge_force P s i (idx_add i off) else 0))"
proof (cases "in_grid (n P) (idx_add i off)")
  case False
  then show ?thesis by (simp add: spring_accum_def)
next
  case True
  have mem: "i \<in> set (grid (n P))" "idx_add i off \<in> set (grid (n P))"
    using assms(3) True by (simp_all add: set_grid)
  from assms(2) mem obtain xi xj vi vj where d: "x s i = Some xi" "x s (idx_add i off) = Some xj"
    "v s i = Some vi" "v s (idx_add i off) = Some vj"
    unfolding regular_def by fastforce
  from assms(2,4) mem(1) True d have "xi \<noteq> xj" unfolding regular_def by fastforce
  then have nz: "xi - xj \<noteq> Vec3 0 0 0" by (simp add: diff_eq_zero_vec)
  from assms(2,4) have "off \<noteq> (0, 0)" "quad_size P \<noteq> 0" unfolding regular_def by auto
  then have od: "original_dist P i (idx_add i off) \<noteq> 0" by (simp add: original_dist_nonzero)
  obtain e where e: "spring_elastic P i (idx_add i off) xi xj = Some e"
    using od by (simp add: spring_elastic_def Let_def normalized_Some [OF nz])
  have dp: "spring_dashpot P xi xj vi vj = Some 0"
    by (simp add: spring_dashpot_zero [OF assms(1)] normalized_Some [OF nz] Vec3_zero)
  show ?thesis
    using True by (simp add: spring_accum_def Let_def d e dp edge_force_def)
qed

lemma spring_force_sum:
  assumes "dashpot_damping P = 0" "regular P s" "in_grid (n P) i"
  shows "spring_force P s i =
    Some (sum_list (map (\<lambda>off. if in_grid (n P) (idx_add i off)
                                  then edge_force P s i (idx_add i off) else 0)
                        (spring_offsets s)))"
proof -
  have "fold (spring_accum P s i) (spring_offsets s) (Some 0) =
    Some (0 + sum_list (map (\<lambda>off. if in_grid (n P) (idx_add i off)
                                  then edge_force P s i (idx_add i off) else 0)
                        (spring_offsets s)))"
    by (rule fold_accum_sum) (rule spring_accum_edge [OF assms])
  then show ?thesis by (simp add: spring_force_def Vec3_zero)
qed

lemma edge_sum_zero:
  assumes "symmetric_offsets offs"
  shows "(\<Sum>i\<leftarrow>grid m. \<Sum>off\<leftarrow>offs. if in_grid m (idx_add i off)
            then edge_force P s i (idx_add i off) else 0) = 0"
proof -
  define A where "A = {a \<in> set (grid m) \<times> set offs. in_grid m (idx_add (fst a) (snd a))}"
  define \<phi> :: "idx \<times> idx \<Rightarrow> idx \<times> idx"
    where "\<phi> a = (idx_add (fst a) (snd a), (- fst (snd a), - snd (snd a)))" for a
  define h where "h a = edge_force P s (fst a) (idx_add (fst a) (snd a))" for a :: "idx \<times> idx"
  from assms have dist: "distinct offs" and sym: "\<And>off. off \<in> set offs \<Longrightarrow> (- fst off, - snd off) \<in> set offs"
    unfolding symmetric_offsets_def by auto
  have ret: "idx_add (idx_add i off) (- fst off, - snd off) = i" for i off
    by (simp add: idx_add_def)
  have inv: "\<phi> (\<phi> a) = a" for a
    by (simp add: \<phi>_def idx_add_def)
  have closed: "\<phi> a \<in> A" if "a \<in> A" for a
    using that sym [of "snd a"]
    by (auto simp: A_def \<phi>_def set_grid ret)
  have flip: "h (\<phi> a) = - h a" for a
    by (simp add: h_def \<phi>_def ret edge_force_swap [of P s "idx_add (fst a) (snd a)"])
  have "(\<Sum>i\<leftarrow>grid m. \<Sum>off\<leftarrow>offs. if in_grid m (idx_add i off)
            then edge_force P s i (idx_add i off) else 0)
      = (\<Sum>i\<in>set (grid m). \<Sum>off\<in>set offs. if in_grid m (idx_add i off)
            then edge_force P s i (idx_add i off) else 0)"
    by (simp add: sum_list_distinct_conv_sum_set distinct_grid dist)
  also have "\<dots> = (\<Sum>a\<in>set (grid m) \<times> set offs. if in_grid m (idx_add (fst a) (snd a))
            then h a else 0)"
    unfolding h_def by (simp add: sum.cartesian_product case_prod_unfold)
  also have "\<dots> = sum h A"
    unfolding A_def by (rule sum.inter_filter [symmetric]) simp
  finally have total: "(\<Sum>i\<leftarrow>grid m. \<Sum>off\<leftarrow>offs. if in_grid m (idx_add i off)
            then edge_force P s i (idx_add i off) else 0) = sum h A" .
  have "sum (\<lambda>a. - h a) A = sum h A"
    by (rule sum.reindex_bij_witness [of A \<phi> \<phi> A]) (simp_all add: inv closed flip)
  then have "sum h A = - sum h A" by (simp add: sum_negf)
  then have "sum h A = 0" by (rule neg_self_vec)
  with total show ?thesis by simp
qed

lemma fold_fadd_sum:
  assumes "\<And>i. i \<in> set ks \<Longrightarrow> f i = Some (w i)"
  shows "fold (\<lambda>i acc. fadd acc (f i)) ks (Some a) = Some (a + sum_list (map w ks))"
  using assms by (induction ks arbitrary: a) (simp_all add: add.assoc)

lemma momentum_sum:
  assumes "\<And>i. i \<in> set (grid (n P)) \<Longrightarrow> v s i = Some (w i)"
  shows "momentum P s = Some (sum_list (map w (grid (n P))))"
  unfolding momentum_def using fold_fadd_sum [of "grid (n P)" "v s" w "Vec3 0 0 0"] assms
  by (simp add: Vec3_zero)

lemma sum_list_smul: "sum_list (map (\<lambda>i. smul a (F i)) ks) = smul a (sum_list (map F ks))"
  by (induction ks) (simp_all add: smul_add smul_zero)

lemma regular_cong:
  assumes "regular P s" "x s' = x s" "spring_offsets s' = spring_offsets s"
    "\<And>i. i \<in> set (grid (n P)) \<Longrightarrow> v s' i \<noteq> None"
  shows "regular P s'"
  using assms unfolding regular_def by simp

lemma substep_A_momentum:
  assumes g0: "gravity P = Vec3 0 0 0" and c0: "dashpot_damping P = 0" and d0: "drag_damping P = 0"
    and sym: "symmetric_offsets (spring_offsets s)"
    and reg: "regular P s" and clr: "clear_of_ball P s"
  shows "momentum P (substep_A P s) = momentum P s" "momentum P s \<noteq> None"
proof -
  define G where "G = grid (n P)"
  define w where "w i = the (v s i)" for i
  define F where "F i = sum_list (map (\<lambda>off. if in_grid (n P) (idx_add i off)
                      then edge_force P s i (idx_add i off) else 0) (spring_offsets s))" for i
  define s1 where "s1 = gravity_pass P G s"
  define s2 where "s2 = spring_pass P G s1"
  have vs: "v s i = Some (w i)" if "i \<in> set G" for i
    using reg that unfolding regular_def G_def w_def by auto
  have xs: "\<exists>p. x s i = Some p" if "i \<in> set G" for i
    using reg that unfolding regular_def G_def by auto
  have ms: "momentum P s = Some (sum_list (map w G))"
    unfolding G_def by (rule momentum_sum) (simp add: vs [unfolded G_def])
  then show "momentum P s \<noteq> None" by simp
  have x1: "x s1 = x s" by (simp add: s1_def x_gravity_pass)
  have o1: "spring_offsets s1 = spring_offsets s" by (simp add: s1_def offsets_gravity_pass)
  have v1: "v s1 i = Some (w i)" if "i \<in> set G" for i
    using that v_gravity_pass [of G P s i]
    by (simp add: s1_def G_def distinct_grid vs [unfolded G_def] g0 Vec3_zero smul_zero)
  have reg1: "regular P s1"
    by (rule regular_cong [OF reg x1 o1]) (simp add: v1 [unfolded G_def])
  have e1: "edge_force P s1 = edge_force P s"
    by (rule ext, rule ext) (simp add: edge_force_def x1)
  have f1: "spring_force P s1 i = Some (F i)" if "i \<in> set G" for i
    using spring_force_sum [OF c0 reg1, of i, unfolded e1 o1] that
    by (simp add: G_def set_grid F_def)
  have v2: "v s2 i = Some (w i + smul (dt P) (F i))" if "i \<in> set G" for i
    using that spring_pass_inplace [OF c0 reg1, of G]
    by (simp add: s2_def G_def distinct_grid v1 [unfolded G_def] f1 [unfolded G_def])
  have x2: "x s2 = x s" by (simp add: s2_def x_spring_pass x1)
  have b2: "ball_center s2 = ball_center s" "ball_radius s2 = ball_radius s"
    using env_spring_pass [of P G s1] env_gravity_pass [of P G s]
    by (simp_all add: s2_def s1_def env_of_def)
  have mv: "move_vel_A P s2 i = Some (w i + smul (dt P) (F i))" if "i \<in> set G" for i
  proof -
    from xs [OF that] obtain p where p: "x s i = Some p" ..
    with clr that have "\<not> vnorm (p - ball_center s) \<le> ball_radius s"
      unfolding clear_of_ball_def G_def by fastforce
    then show ?thesis
      by (simp add: move_vel_A_def x2 b2 p collide_outside damp_def d0 v2 [OF that] smul_one)
  qed
  have st: "substep_A P s = move_pass_A P G s2"
    by (simp add: substep_A_def s1_def s2_def G_def)
  have v3: "v (substep_A P s) i = Some (w i + smul (dt P) (F i))" if "i \<in> set G" for i
    using move_pass_A_at [of G P s2 i] that by (simp add: st G_def distinct_grid mv [unfolded G_def])
  have "momentum P (substep_A P s) = Some (sum_list (map (\<lambda>i. w i + smul (dt P) (F i)) G))"
    unfolding G_def by (rule momentum_sum) (simp add: v3 [unfolded G_def])
  also have "sum_list (map (\<lambda>i. w i + smul (dt P) (F i)) G)
      = sum_list (map w G) + smul (dt P) (sum_list (map F G))"
    by (simp add: sum_list_addf sum_list_smul)
  also have "sum_list (map F G) = 0"
    unfolding F_def G_def by (rule edge_sum_zero [OF sym])
  finally show "momentum P (substep_A P s) = momentum P s"
    by (simp add: ms smul_zero)
qed

lemmas step_eval = substep_A_def gravity_pass_def spring_pass_def move_pass_A_def grid_2
  gravity_node_def spring_node_def move_node_A_def damp_def collide_def integrate_def
  spring_force_def spring_accum_def idx_add_def in_grid_def Let_def spring_elastic_def
  spring_dashpot_def minus_vec3_def plus_vec3_def vnorm_axis normalized_def original_dist_def
  smul_def dot_def fadd_def fsmul_def

lemma fold_fadd_None: "fold (\<lambda>i acc. fadd acc (f i)) ks None = None"
  by (induction ks) simp_all

lemma pairs_step:
  "x (substep_A params_free pairs_example) =
     (x pairs_example)((0, 0) := Some (Vec3 2 0 0), (0, 1) := Some (Vec3 1 0 0),
                       (1, 0) := Some (Vec3 6 0 0), (1, 1) := Some (Vec3 5 0 0))"
  "v (substep_A params_free pairs_example) =
     (v pairs_example)((0, 0) := Some (Vec3 10 0 0), (0, 1) := Some (Vec3 (- 10) 0 0),
                       (1, 0) := Some (Vec3 10 0 0), (1, 1) := Some (Vec3 (- 10) 0 0))"
  by (simp_all add: params_free_def pairs_example_def fields0_def step_eval)

lemma pairs_regular:
  "regular params_free pairs_example" "clear_of_ball params_free pairs_example"
  "regular params_free (substep_A params_free pairs_example)"
  "clear_of_ball params_free (substep_A params_free pairs_example)"
proof -
  have e: "spring_offsets (substep_A params_free pairs_example) = [(0, 1), (0, - 1)]"
    "ball_center (substep_A params_free pairs_example) = Vec3 0 0 0"
    "ball_radius (substep_A params_free pairs_example) = 3 / 10"
    using env_substep_A [of params_free pairs_example]
    by (simp_all add: env_of_def pairs_example_def fields0_def)
  have g: "grid (n params_free) = [(0, 0), (0, 1), (1, 0), (1, 1)]"
    by (simp add: params_free_def grid_2)
  show "regular params_free pairs_example" "clear_of_ball params_free pairs_example"
    by (simp_all add: regular_def clear_of_ball_def g)
       (simp_all add: params_free_def pairs_example_def fields0_def idx_add_def in_grid_def
          minus_vec3_def vnorm_axis)
  have xs: "x (substep_A params_free pairs_example) (0, 0) = Some (Vec3 2 0 0)"
    "x (substep_A params_free pairs_example) (0, 1) = Some (Vec3 1 0 0)"
    "x (substep_A params_free pairs_example) (1, 0) = Some (Vec3 6 0 0)"
    "x (substep_A params_free pairs_example) (1, 1) = Some (Vec3 5 0 0)"
    by (simp_all add: pairs_step(1))
  have vs: "v (substep_A params_free pairs_example) (0, 0) = Some (Vec3 10 0 0)"
    "v (substep_A params_free pairs_example) (0, 1) = Some (Vec3 (- 10) 0 0)"
    "v (substep_A params_free pairs_example) (1, 0) = Some (Vec3 10 0 0)"
    "v (substep_A params_free pairs_example) (1, 1) = Some (Vec3 (- 10) 0 0)"
    by (simp_all add: pairs_step(2))
  have q: "quad_size params_free \<noteq> 0" "n params_free = 2" by (simp_all add: params_free_def)
  show "regular params_free (substep_A params_free pairs_example)"
    unfolding regular_def g e
    by (simp add: q xs vs idx_add_def in_grid_def)
  show "clear_of_ball params_free (substep_A params_free pairs_example)"
    unfolding clear_of_ball_def g e
    by (simp add: xs minus_vec3_def vnorm_axis)
qed

subsection \<open>Facts about the example states\<close>

lemma sheet_B_facts:
  "ball_center sheet_B = Vec3 0 0 0" "ball_radius sheet_B = 3 / 10"
  "dragging sheet_B = 0" "picked_node sheet_B = (0, 0)" "drag_pos sheet_B = Vec3 0 0 0"
  "spring_offsets sheet_B = offsets_of False"
  "x sheet_B = x (initialize_mass_points params_B (1 / 2) (1 / 2) fields0)"
  "v sheet_B = v (initialize_mass_points params_B (1 / 2) (1 / 2) fields0)"
  using env_initialize [of params_B "1 / 2" "1 / 2" fields0]
  by (simp_all add: sheet_B_def initialize_spring_offsets_def env_of_def fields0_def)

lemma inside_example_facts:
  "x inside_example (0, 0) = Some (Vec3 (1 / 10) 0 0)"
  "v inside_example (0, 0) = Some (Vec3 (- 1) 2 0)"
  "ball_center inside_example = Vec3 0 0 0" "ball_radius inside_example = 3 / 10"
  "dragging inside_example = 0"
  by (simp_all add: inside_example_def sheet_B_facts)

lemma dragged_example_facts:
  "x dragged_example (0, 0) = Some (Vec3 (1 / 10) 0 0)"
  "v dragged_example (0, 0) = Some (Vec3 (- 1) 2 0)"
  "ball_center dragged_example = Vec3 0 0 0" "ball_radius dragged_example = 3 / 10"
  "dragging dragged_example = 1" "picked_node dragged_example = (0, 0)"
  "drag_pos dragged_example = Vec3 0 0 0"
  by (simp_all add: dragged_example_def inside_example_def sheet_B_facts)

lemma sheet_A_facts:
  "ball_center sheet_A = Vec3 0 0 0" "ball_radius sheet_A = 3 / 10"
  "spring_offsets sheet_A = offsets_of True"
  "v sheet_A (0, 0) = Some (Vec3 0 0 0)"
proof -
  show "ball_center sheet_A = Vec3 0 0 0" "ball_radius sheet_A = 3 / 10"
    "spring_offsets sheet_A = offsets_of True"
    using env_initialize [of params_A "1 / 2" "1 / 2" "fields0\<lparr> spring_offsets := offsets_of True \<rparr>"]
    by (simp_all add: sheet_A_def env_of_def fields0_def)
  have "in_grid (n params_A) (0, 0)" by (simp add: in_grid_def params_A_def)
  then show "v sheet_A (0, 0) = Some (Vec3 0 0 0)"
    by (simp add: sheet_A_def initialize_at)
qed

section \<open>The spring pass and its double-buffered reference\<close>

text \<open>
  Claim C1, as amended. The spring pass writes no position, so every position it
  reads is the value at the start of the substep. Velocities are updated in
  place: the velocity read for a neighbour is the value after the gravity pass
  only if the neighbour has not been processed yet. When the dashpot coefficient
  is zero and the state is regular (no undefined value, no coinciding
  neighbours), the in-place pass over any duplicate-free order of grid nodes
  gives the same velocity field as the double-buffered reference, whatever the
  order. With the constants of variant A, whose dashpot coefficient is not zero,
  the result depends on the order: there are a state and two duplicate-free
  orders of all grid nodes for which the pass gives different velocity fields.
\<close>

theorem spring_pass_snapshot:
  "x (spring_pass P order s) = x s \<and>
   (dashpot_damping P = 0 \<and> regular P s \<and> distinct order \<and> set order \<subseteq> set (grid (n P)) \<longrightarrow>
      v (spring_pass P order s) = v (spring_pass_ref P order s) \<and>
      (\<forall>order'. distinct order' \<and> set order' = set order \<longrightarrow>
         v (spring_pass P order' s) = v (spring_pass P order s))) \<and>
   (\<exists>s0 order1 order2.
      distinct order1 \<and> set order1 = set (grid (n params_A)) \<and>
      distinct order2 \<and> set order2 = set (grid (n params_A)) \<and>
      v (spring_pass params_A order1 s0) \<noteq> v (spring_pass params_A order2 s0))"
proof (intro conjI impI allI)
  show "x (spring_pass P order s) = x s" by (rule x_spring_pass)
next
  assume h: "dashpot_damping P = 0 \<and> regular P s \<and> distinct order \<and> set order \<subseteq> set (grid (n P))"
  then show "v (spring_pass P order s) = v (spring_pass_ref P order s)"
    by (simp add: spring_pass_inplace spring_pass_ref_def)
next
  fix order'
  assume h: "dashpot_damping P = 0 \<and> regular P s \<and> distinct order \<and> set order \<subseteq> set (grid (n P))"
    and h': "distinct order' \<and> set order' = set order"
  from h h' have "v (spring_pass P order' s) =
      (\<lambda>i. if i \<in> set order' then fadd (v s i) (fsmul (dt P) (spring_force P s i)) else v s i)"
    by (intro spring_pass_inplace) simp_all
  with h h' show "v (spring_pass P order' s) = v (spring_pass P order s)"
    by (simp add: spring_pass_inplace)
next
  have "v (spring_pass params_A ((0, 1) # removeAll (0, 1) (grid (n params_A))) line_example) (0, 1)
      \<noteq> v (spring_pass params_A (grid (n params_A)) line_example) (0, 1)"
    unfolding line_example_first line_example_row_major
    using line_example_values_differ by simp
  then have "v (spring_pass params_A ((0, 1) # removeAll (0, 1) (grid (n params_A))) line_example)
      \<noteq> v (spring_pass params_A (grid (n params_A)) line_example)"
    by metis
  with line_example_orders distinct_grid [of "n params_A"]
  show "\<exists>s0 order1 order2.
      distinct order1 \<and> set order1 = set (grid (n params_A)) \<and>
      distinct order2 \<and> set order2 = set (grid (n params_A)) \<and>
      v (spring_pass params_A order1 s0) \<noteq> v (spring_pass params_A order2 s0)"
    by blast
qed

text \<open>
  The hypotheses hold for the nodes on a line, where every spring is stretched and
  the pass changes the velocities: in row-major order and in the reverse order
  the node \<open>(0, 1)\<close> gets the velocity of the reference.
\<close>

theorem spring_pass_snapshot_witness:
  "(dashpot_damping params_A0 = 0 \<and> regular params_A0 line_example \<and>
      distinct (grid (n params_A0)) \<and> set (grid (n params_A0)) \<subseteq> set (grid (n params_A0))) \<and>
   (distinct (rev (grid (n params_A0))) \<and> set (rev (grid (n params_A0))) = set (grid (n params_A0))) \<and>
   v line_example (0, 1) = Some (Vec3 0 0 0) \<and>
   v (spring_pass_ref params_A0 (grid (n params_A0)) line_example) (0, 1)
     = Some (Vec3 ((23040000 / sqrt 2 + 11430000) / 3200) 0 0) \<and>
   v (spring_pass params_A0 (grid (n params_A0)) line_example) (0, 1)
     = Some (Vec3 ((23040000 / sqrt 2 + 11430000) / 3200) 0 0) \<and>
   v (spring_pass params_A0 (rev (grid (n params_A0))) line_example) (0, 1)
     = Some (Vec3 ((23040000 / sqrt 2 + 11430000) / 3200) 0 0) \<and>
   x (spring_pass params_A0 (grid (n params_A0)) line_example) = x line_example"
proof -
  have h: "dashpot_damping params_A0 = 0 \<and> regular params_A0 line_example \<and>
      distinct (grid (n params_A0)) \<and> set (grid (n params_A0)) \<subseteq> set (grid (n params_A0))"
    by (simp add: regular_line_example distinct_grid) (simp add: params_A0_def)
  have h': "distinct (rev (grid (n params_A0))) \<and>
      set (rev (grid (n params_A0))) = set (grid (n params_A0))"
    by (simp add: distinct_grid)
  have v0: "v line_example (0, 1) = Some (Vec3 0 0 0)"
    by (simp add: line_example_def fields0_def)
  from h h' spring_pass_snapshot [of params_A0 "grid (n params_A0)" line_example]
  have e: "v (spring_pass params_A0 (grid (n params_A0)) line_example)
        = v (spring_pass_ref params_A0 (grid (n params_A0)) line_example)"
    "v (spring_pass params_A0 (rev (grid (n params_A0))) line_example)
        = v (spring_pass params_A0 (grid (n params_A0)) line_example)"
    "x (spring_pass params_A0 (grid (n params_A0)) line_example) = x line_example"
    by blast+
  show ?thesis
    using h h' v0 e line_example_reference0 by simp
qed

text \<open>
  With the constants of variant A and the nodes on a line, the row-major pass
  first changes the velocity of the node \<open>(0, 0)\<close>; the node \<open>(0, 1)\<close>, processed
  next, reads that new velocity in its dashpot term and ends with a velocity
  other than the one the reference computes from the state before the pass.
\<close>

theorem in_place_differs_counterexample:
  "v (spring_pass params_A (grid (n params_A)) line_example) (0, 1)
     \<noteq> v (spring_pass_ref params_A (grid (n params_A)) line_example) (0, 1)"
  unfolding line_example_row_major line_example_reference
  by (rule line_example_values_differ)

section \<open>The third pass of variant B\<close>

text \<open>
  Claim C2, as amended. In the third pass of a substep of variant B, for every
  node (with a defined position \<open>p\<close> other than the centre of the ball, a defined
  velocity \<open>w\<close>, and \<open>dt\<close> not zero): the velocity is first scaled by
  \<open>exp(-drag_damping * dt)\<close>; then, if \<open>dragging\<close> is 1 and the node is the picked
  node, it is replaced by \<open>(drag_pos - p) / dt * 0.5\<close>; then, for every node, the
  dragged one included, if \<open>norm(p - center) \<le> radius\<close> the part of the velocity
  along the inward normal is removed; finally the position is advanced by
  \<open>dt\<close> times the velocity. The sphere test is not the else-branch of the drag
  test.
\<close>

theorem third_pass_B:
  "in_grid (n P) i \<and> x s i = Some p \<and> v s i = Some w \<and> dt P \<noteq> 0 \<and> p \<noteq> ball_center s \<longrightarrow>
     (\<exists>w1 w2 w3 normal.
        w1 = smul (exp (- drag_damping P * dt P)) w \<and>
        w2 = (if dragging s = 1 \<and> i = picked_node s
              then smul (1 / 2) (sdiv (drag_pos s - p) (dt P)) else w1) \<and>
        normalized (p - ball_center s) = Some normal \<and>
        w3 = (if vnorm (p - ball_center s) \<le> ball_radius s
              then w2 - smul (min (dot w2 normal) 0) normal else w2) \<and>
        v (move_pass_B P (grid (n P)) s) i = Some w3 \<and>
        x (move_pass_B P (grid (n P)) s) i = Some (p + smul (dt P) w3))"
proof (intro impI, elim conjE)
  assume h: "in_grid (n P) i" "x s i = Some p" "v s i = Some w" "dt P \<noteq> 0" "p \<noteq> ball_center s"
  define w1 where "w1 = smul (exp (- drag_damping P * dt P)) w"
  define w2 where "w2 = (if dragging s = 1 \<and> i = picked_node s
              then smul (1 / 2) (sdiv (drag_pos s - p) (dt P)) else w1)"
  from h(5) have "p - ball_center s \<noteq> Vec3 0 0 0" by (simp add: diff_eq_zero_vec)
  then obtain normal where nrm: "normalized (p - ball_center s) = Some normal"
    by (auto simp: normalized_Some)
  define w3 where "w3 = (if vnorm (p - ball_center s) \<le> ball_radius s
              then w2 - smul (min (dot w2 normal) 0) normal else w2)"
  have mem: "i \<in> set (grid (n P))" using h(1) by (simp add: set_grid)
  have pre: "(if is_dragged s i then drag_velocity P (drag_pos s) (Some p) else damp P (Some w))
      = Some w2"
    using h(4) by (simp add: w2_def w1_def is_dragged_def drag_velocity_def damp_def fsmul_def)
  have col: "collide (ball_center s) (ball_radius s) (Some p) (Some w2) = Some w3"
    using nrm by (simp add: collide_def w3_def)
  have mv: "move_vel_B P s i = Some w3"
    unfolding move_vel_B_def h(2) h(3) pre col ..
  have "v (move_pass_B P (grid (n P)) s) i = Some w3 \<and>
        x (move_pass_B P (grid (n P)) s) i = Some (p + smul (dt P) w3)"
    using move_pass_B_at [OF distinct_grid, of P "n P" s i] mem
    by (simp add: mv h(2) integrate_def fadd_def fsmul_def)
  with nrm w1_def w2_def w3_def
  show "\<exists>w1 w2 w3 normal.
        w1 = smul (exp (- drag_damping P * dt P)) w \<and>
        w2 = (if dragging s = 1 \<and> i = picked_node s
              then smul (1 / 2) (sdiv (drag_pos s - p) (dt P)) else w1) \<and>
        normalized (p - ball_center s) = Some normal \<and>
        w3 = (if vnorm (p - ball_center s) \<le> ball_radius s
              then w2 - smul (min (dot w2 normal) 0) normal else w2) \<and>
        v (move_pass_B P (grid (n P)) s) i = Some w3 \<and>
        x (move_pass_B P (grid (n P)) s) i = Some (p + smul (dt P) w3)"
    by blast
qed

theorem third_pass_B_witness:
  "(in_grid (n params_B) (0, 0) \<and> x dragged_example (0, 0) = Some (Vec3 (1 / 10) 0 0) \<and>
    v dragged_example (0, 0) = Some (Vec3 (- 1) 2 0) \<and> dt params_B \<noteq> 0 \<and>
    Vec3 (1 / 10) 0 0 \<noteq> ball_center dragged_example) \<and>
   (\<exists>w1 w2 w3 normal.
        w1 = smul (exp (- drag_damping params_B * dt params_B)) (Vec3 (- 1) 2 0) \<and>
        w2 = (if dragging dragged_example = 1 \<and> (0, 0) = picked_node dragged_example
              then smul (1 / 2) (sdiv (drag_pos dragged_example - Vec3 (1 / 10) 0 0) (dt params_B))
              else w1) \<and>
        normalized (Vec3 (1 / 10) 0 0 - ball_center dragged_example) = Some normal \<and>
        w3 = (if vnorm (Vec3 (1 / 10) 0 0 - ball_center dragged_example) \<le> ball_radius dragged_example
              then w2 - smul (min (dot w2 normal) 0) normal else w2) \<and>
        v (move_pass_B params_B (grid (n params_B)) dragged_example) (0, 0) = Some w3 \<and>
        x (move_pass_B params_B (grid (n params_B)) dragged_example) (0, 0)
          = Some (Vec3 (1 / 10) 0 0 + smul (dt params_B) w3))"
proof -
  have h: "in_grid (n params_B) (0, 0) \<and> x dragged_example (0, 0) = Some (Vec3 (1 / 10) 0 0) \<and>
    v dragged_example (0, 0) = Some (Vec3 (- 1) 2 0) \<and> dt params_B \<noteq> 0 \<and>
    Vec3 (1 / 10) 0 0 \<noteq> ball_center dragged_example"
    by (simp add: dragged_example_facts in_grid_def params_B_def)
  from h third_pass_B [of params_B "(0, 0)" dragged_example "Vec3 (1 / 10) 0 0" "Vec3 (- 1) 2 0"]
  show ?thesis by blast
qed

text \<open>
  The dragged node \<open>(0, 0)\<close> at \<open>(0.1, 0, 0)\<close>, inside the ball, is pulled towards
  the origin with the velocity \<open>(-320, 0, 0)\<close>; the projection that follows removes
  it, and the node ends the pass with velocity zero.
\<close>

theorem drag_then_collide_counterexample:
  "is_dragged dragged_example (0, 0) \<and>
   drag_velocity params_B (drag_pos dragged_example) (x dragged_example (0, 0))
     = Some (Vec3 (- 320) 0 0) \<and>
   v (move_pass_B params_B (grid (n params_B)) dragged_example) (0, 0) = Some (Vec3 0 0 0)"
proof -
  have mem: "(0, 0) \<in> set (grid (n params_B))"
    by (simp add: set_grid in_grid_def params_B_def)
  have dv: "drag_velocity params_B (drag_pos dragged_example) (x dragged_example (0, 0))
     = Some (Vec3 (- 320) 0 0)"
    by (simp add: drag_velocity_def dragged_example_facts params_B_def sdiv_def smul_def
        minus_vec3_def)
  have dr: "is_dragged dragged_example (0, 0)"
    by (simp add: is_dragged_def dragged_example_facts)
  have xs: "x dragged_example (0, 0) = Some (Vec3 (1 / 10) 0 0)"
    "ball_center dragged_example = Vec3 0 0 0" "ball_radius dragged_example = 3 / 10"
    by (simp_all add: dragged_example_facts)
  have nrm: "normalized (Vec3 (1 / 10) 0 0) = Some (Vec3 1 0 0)"
    by (simp add: normalized_def vnorm_axis smul_def)
  have col: "collide (Vec3 0 0 0) (3 / 10) (Some (Vec3 (1 / 10) 0 0)) (Some (Vec3 (- 320) 0 0))
      = Some (Vec3 0 0 0)"
    by (simp add: collide_def minus_vec3_def vnorm_axis nrm dot_def smul_def)
  have "move_vel_B params_B dragged_example (0, 0) = Some (Vec3 0 0 0)"
    using dv dr col by (simp add: move_vel_B_def xs)
  with move_pass_B_at [OF distinct_grid, of params_B "n params_B" dragged_example "(0, 0)"] mem dv dr
  show ?thesis by simp
qed

section \<open>Coinciding nodes\<close>

text \<open>
  Claim C3, as amended. If a node and one of its spring neighbours have exactly
  the same position, the spring pass does not treat the contribution of the pair
  as zero: the separation has length zero, its normalisation is undefined (not a
  number), and so is the force on the node. The substep still completes, but
  after it the velocity and the position of the node are undefined. In variant B
  this holds unless the node is the dragged node or lies in the pinned column,
  whose velocities are overwritten later in the substep.
\<close>

theorem coinciding_nodes_undefined:
  "in_grid (n P) i \<and> off \<in> set (spring_offsets s) \<and> in_grid (n P) (idx_add i off) \<and>
   x s i = x s (idx_add i off) \<longrightarrow>
     v (substep_A P s) i = None \<and> x (substep_A P s) i = None \<and>
     (\<not> is_dragged s i \<and> snd i \<noteq> n P - 1 \<longrightarrow>
        v (substep_B P s) i = None \<and> x (substep_B P s) i = None)"
  using substep_A_coincide [of P i off s] substep_B_coincide [of P i off s] by blast

theorem coinciding_nodes_undefined_witness:
  "(in_grid (n params_A) (0, 0) \<and> (0, 1) \<in> set (spring_offsets coincide_example) \<and>
    in_grid (n params_A) (idx_add (0, 0) (0, 1)) \<and>
    x coincide_example (0, 0) = x coincide_example (idx_add (0, 0) (0, 1))) \<and>
   (\<not> is_dragged coincide_example (0, 0) \<and> snd (0 :: int, 0 :: int) \<noteq> n params_A - 1) \<and>
   v (substep_A params_A coincide_example) (0, 0) = None \<and>
   x (substep_A params_A coincide_example) (0, 0) = None \<and>
   v (substep_B params_A coincide_example) (0, 0) = None \<and>
   x (substep_B params_A coincide_example) (0, 0) = None"
proof -
  have h: "in_grid (n params_A) (0, 0) \<and> (0, 1) \<in> set (spring_offsets coincide_example) \<and>
    in_grid (n params_A) (idx_add (0, 0) (0, 1)) \<and>
    x coincide_example (0, 0) = x coincide_example (idx_add (0, 0) (0, 1))"
    by (simp add: coincide_example_facts offsets_True idx_add_def in_grid_def params_A_def)
  have h2: "\<not> is_dragged coincide_example (0, 0) \<and> snd (0 :: int, 0 :: int) \<noteq> n params_A - 1"
    by (simp add: is_dragged_def coincide_example_facts params_A_def)
  from h h2 coinciding_nodes_undefined [of params_A "(0, 0)" "(0, 1)" coincide_example]
  show ?thesis by blast
qed

text \<open>
  The nodes \<open>(0, 0)\<close> and \<open>(0, 1)\<close> are both at \<open>(-0.5, 0.6, -0.5)\<close> with velocity
  zero; after one substep of variant A the velocity and the position of the node
  \<open>(0, 0)\<close> are undefined.
\<close>

theorem zero_separation_counterexample:
  "x coincide_example (0, 0) = Some (Vec3 (- (1 / 2)) (6 / 10) (- (1 / 2))) \<and>
   x coincide_example (0, 1) = Some (Vec3 (- (1 / 2)) (6 / 10) (- (1 / 2))) \<and>
   v coincide_example (0, 0) = Some (Vec3 0 0 0) \<and>
   v coincide_example (0, 1) = Some (Vec3 0 0 0) \<and>
   (0, 1) \<in> set (spring_offsets coincide_example) \<and>
   v (substep_A params_A coincide_example) (0, 0) = None \<and>
   x (substep_A params_A coincide_example) (0, 0) = None"
proof -
  have h: "in_grid (n params_A) (0, 0)" "(0, 1) \<in> set (spring_offsets coincide_example)"
    "in_grid (n params_A) (idx_add (0, 0) (0, 1))"
    "x coincide_example (0, 0) = x coincide_example (idx_add (0, 0) (0, 1))"
    by (simp_all add: coincide_example_facts offsets_True idx_add_def in_grid_def params_A_def)
  from substep_A_coincide [OF h] h(2) coincide_example_facts(1-4) show ?thesis by blast
qed

section \<open>The pinned column of variant B\<close>

text \<open>
  Claim C4, as amended. In variant B, after every substep, every node \<open>(i, n - 1)\<close>
  with \<open>0 \<le> i < n\<close> has velocity zero and the position
  \<open>(i * quad_size - 0.5, 0.6, 0.5)\<close>, whatever the three passes computed for it.
  This position does not contain the random offset of \<open>initialize_mass_points\<close>,
  and its third coordinate is \<open>0.5\<close>, not \<open>(n - 1) * quad_size - 0.5\<close>: in
  general it is not the position the node was given at initialisation.
\<close>

theorem pinned_column_reset:
  "0 \<le> i \<and> i < n P \<longrightarrow>
     v (substep_B P s) (i, n P - 1) = Some (Vec3 0 0 0) \<and>
     x (substep_B P s) (i, n P - 1) =
       Some (Vec3 (real_of_int i * quad_size P - 1 / 2) (6 / 10) (1 / 2))"
  by (simp add: substep_B_pinned)

theorem pinned_column_reset_witness:
  "(0::int) \<le> 5 \<and> 5 < n params_B \<and>
     v (substep_B params_B sheet_B) (5, n params_B - 1) = Some (Vec3 0 0 0) \<and>
     x (substep_B params_B sheet_B) (5, n params_B - 1) =
       Some (Vec3 (5 * quad_size params_B - 1 / 2) (6 / 10) (1 / 2))"
  using pinned_column_reset [of 5 params_B sheet_B] by (simp add: params_B_def)

text \<open>
  In the state in which the main loop starts (random offset zero) the node
  \<open>(0, 127)\<close> is at \<open>(-0.5, 0.6, 127/128 - 0.5)\<close>; after one substep it is at
  \<open>(-0.5, 0.6, 0.5)\<close>.
\<close>

theorem pinned_position_counterexample:
  "x sheet_B (0, 127) = Some (Vec3 (- (1 / 2)) (6 / 10) (127 / 128 - 1 / 2)) \<and>
   x (substep_B params_B sheet_B) (0, 127) = Some (Vec3 (- (1 / 2)) (6 / 10) (1 / 2)) \<and>
   x (substep_B params_B sheet_B) (0, 127) \<noteq> x sheet_B (0, 127)"
proof -
  have a: "x sheet_B (0, 127) = Some (Vec3 (- (1 / 2)) (6 / 10) (127 / 128 - 1 / 2))"
    by (simp add: sheet_B_facts initialize_mass_points_def init_at set_grid in_grid_def
        params_B_def)
  have b: "x (substep_B params_B sheet_B) (0, n params_B - 1)
     = Some (Vec3 (- (1 / 2)) (6 / 10) (1 / 2))"
    by (subst substep_B_pinned) (simp_all add: params_B_def)
  have c: "n params_B - 1 = 127" by (simp add: params_B_def)
  show ?thesis using a b unfolding c by simp
qed

section \<open>Picking\<close>

text \<open>
  Claim C5. For every field of positions and every ray, \<open>pick_node\<close> returns none
  exactly when no node has a distance from the ray below 0.02; when it returns a
  node, that node is in the grid, its distance is below 0.02 and is the least
  distance of all nodes, and every node that the row-major scan visits earlier is
  strictly farther away (the first node wins a tie). For a direction of unit
  length the distance computed is the perpendicular distance from the node to the
  line of the ray: it is the distance from the node to a point of the line, no
  point of the line is closer to the node, and its square is the square of the
  distance from the node to the origin of the ray minus the square of the
  projection onto the direction.
\<close>

theorem pick_node_nearest:
  "(pick_node P s ro rd = None \<longleftrightarrow>
      (\<forall>k d. in_grid (n P) k \<and> node_dist ro rd (x s) k = Some d \<longrightarrow> \<not> d < 2 / 100)) \<and>
   (pick_node P s ro rd = Some k \<longrightarrow>
      in_grid (n P) k \<and>
      (\<exists>d. node_dist ro rd (x s) k = Some d \<and> d < 2 / 100 \<and>
           (\<forall>k' d'. in_grid (n P) k' \<and> node_dist ro rd (x s) k' = Some d' \<longrightarrow>
              d \<le> d' \<and> (earlier k' k \<longrightarrow> d < d')))) \<and>
   (vnorm rd = 1 \<longrightarrow>
      (\<forall>pos. (\<exists>t. ray_dist ro rd pos = vnorm (ro + smul t rd - pos)) \<and>
             (\<forall>t. ray_dist ro rd pos \<le> vnorm (ro + smul t rd - pos)) \<and>
             (ray_dist ro rd pos)\<^sup>2
               = dot (pos - ro) (pos - ro) - (dot (pos - ro) rd)\<^sup>2))"
proof -
  obtain node m where acc: "fold (pick_step ro rd (x s)) (grid (n P)) (None, 10 ^ 10) = (node, m)"
    by (cases "fold (pick_step ro rd (x s)) (grid (n P)) (None, 10 ^ 10)")
  have pk: "pick_node P s ro rd = node" unfolding pick_node_def acc by simp
  note inv = pick_fold [OF acc]
  have some: "in_grid (n P) k0 \<and>
      (\<exists>d. node_dist ro rd (x s) k0 = Some d \<and> d < 2 / 100 \<and>
           (\<forall>k' d'. in_grid (n P) k' \<and> node_dist ro rd (x s) k' = Some d' \<longrightarrow>
              d \<le> d' \<and> (earlier k' k0 \<longrightarrow> d < d')))" if nk: "node = Some k0" for k0
  proof -
    from inv nk obtain pre post where sp: "node_dist ro rd (x s) k0 = Some m" "m < 2 / 100"
      "grid (n P) = pre @ k0 # post"
      "\<forall>k'\<in>set pre. \<forall>d. node_dist ro rd (x s) k' = Some d \<longrightarrow> m < d"
      "\<forall>k'\<in>set post. \<forall>d. node_dist ro rd (x s) k' = Some d \<longrightarrow> m \<le> d"
      by auto
    have ing: "in_grid (n P) k0"
      using set_grid [of "n P"] sp(3) by auto
    have least: "m \<le> d' \<and> (earlier k' k0 \<longrightarrow> m < d')"
      if k': "in_grid (n P) k'" "node_dist ro rd (x s) k' = Some d'" for k' d'
    proof
      from k'(1) have "k' \<in> set (grid (n P))" by (simp add: set_grid)
      with sp(3) have "k' \<in> set pre \<or> k' = k0 \<or> k' \<in> set post" by auto
      then show "m \<le> d'" using sp(1,4,5) k'(2) by fastforce
      show "earlier k' k0 \<longrightarrow> m < d'"
      proof
        assume "earlier k' k0"
        from grid_split_earlier [OF sp(3) k'(1) this] sp(4) k'(2) show "m < d'" by blast
      qed
    qed
    from ing sp(1,2) least show ?thesis by blast
  qed
  have none_iff: "node = None \<longleftrightarrow>
      (\<forall>k d. in_grid (n P) k \<and> node_dist ro rd (x s) k = Some d \<longrightarrow> \<not> d < 2 / 100)"
  proof
    assume "node = None"
    with inv have "\<forall>k\<in>set (grid (n P)). \<forall>d. node_dist ro rd (x s) k = Some d \<longrightarrow> \<not> d < 2 / 100"
      by simp
    then show "\<forall>k d. in_grid (n P) k \<and> node_dist ro rd (x s) k = Some d \<longrightarrow> \<not> d < 2 / 100"
      unfolding set_grid by blast
  next
    assume far: "\<forall>k d. in_grid (n P) k \<and> node_dist ro rd (x s) k = Some d \<longrightarrow> \<not> d < 2 / 100"
    show "node = None"
    proof (cases node)
      case None
      then show ?thesis .
    next
      case (Some k0)
      from some [OF Some] far show ?thesis by blast
    qed
  qed
  have perp: "vnorm rd = 1 \<longrightarrow>
      (\<forall>pos. (\<exists>t. ray_dist ro rd pos = vnorm (ro + smul t rd - pos)) \<and>
             (\<forall>t. ray_dist ro rd pos \<le> vnorm (ro + smul t rd - pos)) \<and>
             (ray_dist ro rd pos)\<^sup>2
               = dot (pos - ro) (pos - ro) - (dot (pos - ro) rd)\<^sup>2)"
  proof (intro impI allI conjI)
    fix pos
    show "\<exists>t. ray_dist ro rd pos = vnorm (ro + smul t rd - pos)"
      using ray_dist_attained [of ro rd pos] by blast
  next
    fix pos t
    assume "vnorm rd = 1"
    then show "ray_dist ro rd pos \<le> vnorm (ro + smul t rd - pos)" by (rule ray_dist_least)
  next
    fix pos
    assume "vnorm rd = 1"
    then show "(ray_dist ro rd pos)\<^sup>2 = dot (pos - ro) (pos - ro) - (dot (pos - ro) rd)\<^sup>2"
      by (rule ray_dist_sq)
  qed
  from none_iff some perp show ?thesis unfolding pk by blast
qed

theorem pick_node_nearest_witness:
  "pick_node params_2 pick_example (Vec3 (1 / 100) 1 0) (Vec3 0 (- 1) 0) = Some (0, 0) \<and>
   vnorm (Vec3 0 (- 1) 0) = 1 \<and>
   in_grid (n params_2) (0, 1) \<and> earlier (0, 0) (0, 1) \<and>
   node_dist (Vec3 (1 / 100) 1 0) (Vec3 0 (- 1) 0) (x pick_example) (0, 1) = Some (1 / 100) \<and>
   in_grid (n params_2) (1, 1) \<and>
   node_dist (Vec3 (1 / 100) 1 0) (Vec3 0 (- 1) 0) (x pick_example) (1, 1) = Some 3 \<and>
   in_grid (n params_2) (0, 0) \<and>
   (\<exists>d. node_dist (Vec3 (1 / 100) 1 0) (Vec3 0 (- 1) 0) (x pick_example) (0, 0) = Some d \<and>
        d < 2 / 100 \<and> d \<le> 1 / 100 \<and> d \<le> 3) \<and>
   (\<exists>t. ray_dist (Vec3 (1 / 100) 1 0) (Vec3 0 (- 1) 0) (Vec3 (1 / 100) (- 5) 3)
          = vnorm (Vec3 (1 / 100) 1 0 + smul t (Vec3 0 (- 1) 0) - Vec3 (1 / 100) (- 5) 3)) \<and>
   ray_dist (Vec3 (1 / 100) 1 0) (Vec3 0 (- 1) 0) (Vec3 (1 / 100) (- 5) 3)
     \<le> vnorm (Vec3 (1 / 100) 1 0 + smul 7 (Vec3 0 (- 1) 0) - Vec3 (1 / 100) (- 5) 3) \<and>
   (ray_dist (Vec3 (1 / 100) 1 0) (Vec3 0 (- 1) 0) (Vec3 (1 / 100) (- 5) 3))\<^sup>2 = 9"
proof -
  have u: "vnorm (Vec3 0 (- 1) 0) = 1" by (simp add: vnorm_axis)
  have g: "in_grid (n params_2) (0, 1)" "in_grid (n params_2) (1, 1)"
    by (simp_all add: in_grid_def params_2_def)
  have e: "earlier (0, 0) (0, 1)" by (simp add: earlier_def)
  have d: "node_dist (Vec3 (1 / 100) 1 0) (Vec3 0 (- 1) 0) (x pick_example) (0, 1) = Some (1 / 100)"
    "node_dist (Vec3 (1 / 100) 1 0) (Vec3 0 (- 1) 0) (x pick_example) (1, 1) = Some 3"
    by (simp_all add: node_dist_def pick_example_def ray_dist_def Let_def dot_def smul_def
        plus_vec3_def minus_vec3_def vnorm_axis)
  have r: "dot (Vec3 (1 / 100) (- 5) 3 - Vec3 (1 / 100) 1 0) (Vec3 (1 / 100) (- 5) 3 - Vec3 (1 / 100) 1 0)
      - (dot (Vec3 (1 / 100) (- 5) 3 - Vec3 (1 / 100) 1 0) (Vec3 0 (- 1) 0))\<^sup>2 = 9"
    by (simp add: dot_def minus_vec3_def)
  from pick_example_result u g e d r
    pick_node_nearest [of params_2 pick_example "Vec3 (1 / 100) 1 0" "Vec3 0 (- 1) 0" "(0, 0)"]
  show ?thesis by metis
qed

section \<open>The collision step\<close>

text \<open>
  Claim C6, as amended. For a node whose position lies within the ball
  (\<open>norm(position - center) \<le> radius\<close>) and is not the centre itself, and whose
  velocity is defined when the third pass starts, the velocity right after the
  collision step has a non-negative component along
  \<open>normal = normalized(position - center)\<close>. This holds for the collision step by
  itself and for the velocity that the third pass of either variant leaves in the
  node (the collision step is the last write of the velocity in that pass). A
  velocity that the spring pass left undefined is not covered.
\<close>

theorem collide_outward:
  "vnorm (p - ball_center s) \<le> ball_radius s \<and> p \<noteq> ball_center s \<and> in_grid (n P) i \<and>
   x s i = Some p \<and> v s i = Some w \<and> dt P \<noteq> 0 \<longrightarrow>
     (\<exists>normal. normalized (p - ball_center s) = Some normal \<and>
        (\<exists>w'. collide (ball_center s) (ball_radius s) (Some p) (Some w) = Some w' \<and>
              0 \<le> dot w' normal) \<and>
        (\<exists>w'. v (move_pass_A P (grid (n P)) s) i = Some w' \<and> 0 \<le> dot w' normal) \<and>
        (\<exists>w'. v (move_pass_B P (grid (n P)) s) i = Some w' \<and> 0 \<le> dot w' normal))"
proof (intro impI, elim conjE)
  assume h: "vnorm (p - ball_center s) \<le> ball_radius s" "p \<noteq> ball_center s"
    "in_grid (n P) i" "x s i = Some p" "v s i = Some w" "dt P \<noteq> 0"
  have mem: "i \<in> set (grid (n P))" using h(3) by (simp add: set_grid)
  obtain w1 where w1: "damp P (v s i) = Some w1"
    using h(5) by (simp add: damp_def fsmul_def)
  have "\<exists>w2. (if is_dragged s i then drag_velocity P (drag_pos s) (Some p)
      else damp P (v s i)) = Some w2"
    using h(4,6) w1 by (simp add: drag_velocity_def)
  then obtain w2 where w2: "(if is_dragged s i then drag_velocity P (drag_pos s) (Some p)
      else damp P (v s i)) = Some w2" ..
  from collide_defined [OF h(1,2), of w] obtain normal where
    n0: "normalized (p - ball_center s) = Some normal" and
    c0: "collide (ball_center s) (ball_radius s) (Some p) (Some w) =
           Some (w - smul (min (dot w normal) 0) normal)" and
    d0: "0 \<le> dot (w - smul (min (dot w normal) 0) normal) normal"
    by blast
  from collide_defined [OF h(1,2), of w1] n0 have
    c1: "collide (ball_center s) (ball_radius s) (Some p) (Some w1) =
           Some (w1 - smul (min (dot w1 normal) 0) normal)" and
    d1: "0 \<le> dot (w1 - smul (min (dot w1 normal) 0) normal) normal"
    by auto
  from collide_defined [OF h(1,2), of w2] n0 have
    c2: "collide (ball_center s) (ball_radius s) (Some p) (Some w2) =
           Some (w2 - smul (min (dot w2 normal) 0) normal)" and
    d2: "0 \<le> dot (w2 - smul (min (dot w2 normal) 0) normal) normal"
    by auto
  have a: "v (move_pass_A P (grid (n P)) s) i = Some (w1 - smul (min (dot w1 normal) 0) normal)"
    using move_pass_A_at [OF distinct_grid, of P "n P" s i] mem
    by (simp add: move_vel_A_def h(4) w1 c1)
  have b: "v (move_pass_B P (grid (n P)) s) i = Some (w2 - smul (min (dot w2 normal) 0) normal)"
  proof -
    have "move_vel_B P s i = Some (w2 - smul (min (dot w2 normal) 0) normal)"
      unfolding move_vel_B_def h(4) w2 c2 ..
    with move_pass_B_at [OF distinct_grid, of P "n P" s i] mem show ?thesis by simp
  qed
  show "\<exists>normal. normalized (p - ball_center s) = Some normal \<and>
        (\<exists>w'. collide (ball_center s) (ball_radius s) (Some p) (Some w) = Some w' \<and>
              0 \<le> dot w' normal) \<and>
        (\<exists>w'. v (move_pass_A P (grid (n P)) s) i = Some w' \<and> 0 \<le> dot w' normal) \<and>
        (\<exists>w'. v (move_pass_B P (grid (n P)) s) i = Some w' \<and> 0 \<le> dot w' normal)"
    using n0 c0 d0 a d1 b d2 by blast
qed

theorem collide_outward_witness:
  "(vnorm (Vec3 (1 / 10) 0 0 - ball_center inside_example) \<le> ball_radius inside_example \<and>
    Vec3 (1 / 10) 0 0 \<noteq> ball_center inside_example \<and> in_grid (n params_B) (0, 0) \<and>
    x inside_example (0, 0) = Some (Vec3 (1 / 10) 0 0) \<and>
    v inside_example (0, 0) = Some (Vec3 (- 1) 2 0) \<and> dt params_B \<noteq> 0) \<and>
   (\<exists>normal. normalized (Vec3 (1 / 10) 0 0 - ball_center inside_example) = Some normal \<and>
        (\<exists>w'. collide (ball_center inside_example) (ball_radius inside_example)
                 (Some (Vec3 (1 / 10) 0 0)) (Some (Vec3 (- 1) 2 0)) = Some w' \<and>
              0 \<le> dot w' normal) \<and>
        (\<exists>w'. v (move_pass_A params_B (grid (n params_B)) inside_example) (0, 0) = Some w' \<and>
              0 \<le> dot w' normal) \<and>
        (\<exists>w'. v (move_pass_B params_B (grid (n params_B)) inside_example) (0, 0) = Some w' \<and>
              0 \<le> dot w' normal))"
proof -
  have h: "vnorm (Vec3 (1 / 10) 0 0 - ball_center inside_example) \<le> ball_radius inside_example \<and>
    Vec3 (1 / 10) 0 0 \<noteq> ball_center inside_example \<and> in_grid (n params_B) (0, 0) \<and>
    x inside_example (0, 0) = Some (Vec3 (1 / 10) 0 0) \<and>
    v inside_example (0, 0) = Some (Vec3 (- 1) 2 0) \<and> dt params_B \<noteq> 0"
    by (simp add: inside_example_facts minus_vec3_def vnorm_axis in_grid_def params_B_def)
  from h collide_outward [of "Vec3 (1 / 10) 0 0" inside_example params_B "(0, 0)" "Vec3 (- 1) 2 0"]
  show ?thesis by blast
qed

text \<open>
  The nodes \<open>(0, 0)\<close> and \<open>(0, 1)\<close> are both at \<open>(0.1, 0, 0)\<close>, inside the ball, at
  rest. The spring pass of the substep makes the velocity of \<open>(0, 0)\<close> undefined;
  the node is still inside the ball when the third pass runs, the collision step
  leaves the velocity undefined, and so it is after the substep: no component
  along the normal is non-negative.
\<close>

theorem undefined_velocity_counterexample:
  "x inside_pair_example (0, 0) = Some (Vec3 (1 / 10) 0 0) \<and>
   v inside_pair_example (0, 0) = Some (Vec3 0 0 0) \<and>
   x inside_pair_example (0, 1) = Some (Vec3 (1 / 10) 0 0) \<and>
   vnorm (Vec3 (1 / 10) 0 0 - ball_center inside_pair_example) \<le> ball_radius inside_pair_example \<and>
   Vec3 (1 / 10) 0 0 \<noteq> ball_center inside_pair_example \<and>
   x (spring_pass params_A (grid (n params_A))
        (gravity_pass params_A (grid (n params_A)) inside_pair_example)) (0, 0)
     = Some (Vec3 (1 / 10) 0 0) \<and>
   v (spring_pass params_A (grid (n params_A))
        (gravity_pass params_A (grid (n params_A)) inside_pair_example)) (0, 0) = None \<and>
   collide (ball_center inside_pair_example) (ball_radius inside_pair_example)
     (Some (Vec3 (1 / 10) 0 0)) None = None \<and>
   v (substep_A params_A inside_pair_example) (0, 0) = None"
proof -
  have f: "x inside_pair_example (0, 0) = Some (Vec3 (1 / 10) 0 0)"
    "v inside_pair_example (0, 0) = Some (Vec3 0 0 0)"
    "x inside_pair_example (0, 1) = Some (Vec3 (1 / 10) 0 0)"
    "ball_center inside_pair_example = Vec3 0 0 0" "ball_radius inside_pair_example = 3 / 10"
    "spring_offsets inside_pair_example = offsets_of True"
    by (simp_all add: inside_pair_example_def sheet_A_facts)
  have b: "vnorm (Vec3 (1 / 10) 0 0 - ball_center inside_pair_example) \<le> ball_radius inside_pair_example"
    "Vec3 (1 / 10) 0 0 \<noteq> ball_center inside_pair_example"
    by (simp_all add: f minus_vec3_def vnorm_axis)
  have h: "in_grid (n params_A) (0, 0)" "(0, 1) \<in> set (spring_offsets inside_pair_example)"
    "in_grid (n params_A) (idx_add (0, 0) (0, 1))"
    "x inside_pair_example (0, 0) = x inside_pair_example (idx_add (0, 0) (0, 1))"
    by (simp_all add: f offsets_True idx_add_def in_grid_def params_A_def)
  have mem: "(0, 0) \<in> set (grid (n params_A))" using h(1) by (simp add: set_grid)
  have xs: "x (spring_pass params_A (grid (n params_A))
        (gravity_pass params_A (grid (n params_A)) inside_pair_example)) (0, 0)
     = Some (Vec3 (1 / 10) 0 0)"
    by (simp add: x_spring_pass x_gravity_pass f)
  have vs: "v (spring_pass params_A (grid (n params_A))
        (gravity_pass params_A (grid (n params_A)) inside_pair_example)) (0, 0) = None"
    by (rule spring_pass_coincide [OF mem, of "(0, 1)"])
       (simp_all add: offsets_gravity_pass x_gravity_pass h)
  have c: "collide (ball_center inside_pair_example) (ball_radius inside_pair_example)
     (Some (Vec3 (1 / 10) 0 0)) None = None" by simp
  from f(1,2,3) b xs vs c substep_A_coincide(1) [OF h] show ?thesis by blast
qed

section \<open>The drag controller of variant B\<close>

text \<open>
  Claim C7, as amended. The drag controller has the two states \<open>dragging = 0\<close>
  (idle) and \<open>dragging = 1\<close> (dragging); at most one node is dragged at a time;
  when the button is released the controller returns to idle, and no node is
  dragged any more. \<open>picked_node\<close> is not cleared: it keeps the index it held,
  which the substep ignores while \<open>dragging\<close> is 0.
\<close>

theorem drag_release:
  "(dragging s = 0 \<or> dragging s = 1) \<and>
   (is_dragged s i \<and> is_dragged s j \<longrightarrow> i = j) \<and>
   dragging (handle_mouse P Released s) = 0 \<and>
   picked_node (handle_mouse P Released s) = picked_node s \<and>
   \<not> is_dragged (handle_mouse P Released s) i"
  using one_bit [of "dragging s"] by (auto simp: is_dragged_def handle_mouse_def)

theorem drag_release_witness:
  "is_dragged (sheet_B\<lparr> dragging := 1, picked_node := (3, 4) \<rparr>) (3, 4) \<and>
   dragging (handle_mouse params_B Released (sheet_B\<lparr> dragging := 1, picked_node := (3, 4) \<rparr>)) = 0 \<and>
   \<not> is_dragged (handle_mouse params_B Released (sheet_B\<lparr> dragging := 1, picked_node := (3, 4) \<rparr>)) (3, 4)"
  using drag_release [of "sheet_B\<lparr> dragging := 1, picked_node := (3, 4) \<rparr>" "(3, 4)" "(3, 4)" params_B]
  by (simp add: is_dragged_def)

text \<open>After a release in the dragging state, \<open>picked_node\<close> still holds the index.\<close>

theorem release_keeps_picked_node_counterexample:
  "dragging (sheet_B\<lparr> dragging := 1, picked_node := (3, 4) \<rparr>) = 1 \<and>
   picked_node (handle_mouse params_B Released (sheet_B\<lparr> dragging := 1, picked_node := (3, 4) \<rparr>)) = (3, 4)"
  by (simp add: handle_mouse_def)

section \<open>Conservation of momentum\<close>

text \<open>
  Claim C8, as amended. The two contributions (elastic and dashpot) that two
  nodes exert on each other, computed from the same positions and velocities,
  are equal and opposite, also in being undefined. With zero gravity, zero
  dashpot damping and zero drag damping, for every grid and every duplicate-free
  list of offsets that contains the opposite of each of its offsets (a system of
  two nodes joined by one spring is the grid of two by two nodes with the offsets
  \<open>(1, 1)\<close> and \<open>(-1, -1)\<close>), the sum of the velocities of all nodes is the same
  after any number of substeps of variant A, provided that at the start of each
  of these substeps the state is regular (in particular no two connected nodes
  coincide) and no node is inside the ball.
\<close>

theorem spring_momentum:
  "spring_elastic P j i xj xi = map_option uminus (spring_elastic P i j xi xj) \<and>
   spring_dashpot P xj xi vj vi = map_option uminus (spring_dashpot P xi xj vi vj) \<and>
   (gravity P = Vec3 0 0 0 \<and> dashpot_damping P = 0 \<and> drag_damping P = 0 \<and>
    symmetric_offsets (spring_offsets s) \<and>
    (\<forall>k. k < N \<longrightarrow> regular P ((substep_A P ^^ k) s) \<and> clear_of_ball P ((substep_A P ^^ k) s))
    \<longrightarrow> momentum P ((substep_A P ^^ N) s) = momentum P s \<and> (0 < N \<longrightarrow> momentum P s \<noteq> None))"
proof (intro conjI impI)
  show "spring_elastic P j i xj xi = map_option uminus (spring_elastic P i j xi xj)"
    by (rule spring_elastic_swap)
  show "spring_dashpot P xj xi vj vi = map_option uminus (spring_dashpot P xi xj vi vj)"
    by (rule spring_dashpot_swap)
next
  assume h: "gravity P = Vec3 0 0 0 \<and> dashpot_damping P = 0 \<and> drag_damping P = 0 \<and>
    symmetric_offsets (spring_offsets s) \<and>
    (\<forall>k. k < N \<longrightarrow> regular P ((substep_A P ^^ k) s) \<and> clear_of_ball P ((substep_A P ^^ k) s))"
  have step: "k < N \<Longrightarrow> momentum P ((substep_A P ^^ Suc k) s) = momentum P ((substep_A P ^^ k) s)" for k
  proof -
    assume k: "k < N"
    have "spring_offsets ((substep_A P ^^ k) s) = spring_offsets s"
      using env_funpow [of "substep_A P" k s, OF env_substep_A] by (simp add: env_of_def)
    with h k show ?thesis
      by (simp add: substep_A_momentum(1))
  qed
  have "k \<le> N \<Longrightarrow> momentum P ((substep_A P ^^ k) s) = momentum P s" for k
  proof (induction k)
    case 0
    show ?case by simp
  next
    case (Suc k)
    then have "k < N" by simp
    from step [OF this] Suc show ?case by simp
  qed
  then show "momentum P ((substep_A P ^^ N) s) = momentum P s" by simp
  show "momentum P s \<noteq> None" if "0 < N"
    using h that substep_A_momentum(2) [of P s] by (metis funpow_0)
qed

theorem spring_momentum_witness:
  "(gravity params_free = Vec3 0 0 0 \<and> dashpot_damping params_free = 0 \<and>
    drag_damping params_free = 0 \<and> symmetric_offsets (spring_offsets pairs_example) \<and>
    regular params_free pairs_example \<and> clear_of_ball params_free pairs_example \<and>
    regular params_free (substep_A params_free pairs_example) \<and>
    clear_of_ball params_free (substep_A params_free pairs_example)) \<and>
   momentum params_free ((substep_A params_free ^^ 2) pairs_example)
     = momentum params_free pairs_example \<and>
   momentum params_free pairs_example \<noteq> None"
proof -
  have h: "gravity params_free = Vec3 0 0 0 \<and> dashpot_damping params_free = 0 \<and>
    drag_damping params_free = 0 \<and> symmetric_offsets (spring_offsets pairs_example)"
    by (simp add: params_free_def pairs_example_def symmetric_offsets_def)
  have t: "\<forall>k. k < (2 :: nat) \<longrightarrow> regular params_free ((substep_A params_free ^^ k) pairs_example) \<and>
      clear_of_ball params_free ((substep_A params_free ^^ k) pairs_example)"
  proof (intro allI impI)
    fix k :: nat
    assume "k < 2"
    then have "k = 0 \<or> k = Suc 0" by auto
    then show "regular params_free ((substep_A params_free ^^ k) pairs_example) \<and>
      clear_of_ball params_free ((substep_A params_free ^^ k) pairs_example)"
      using pairs_regular by auto
  qed
  have p: "(0 :: nat) < 2" by simp
  from h t p pairs_regular
    spring_momentum [of params_free "(0, 1)" "(0, 0)" "Vec3 2 0 0" "Vec3 1 0 0"
      "Vec3 0 0 0" "Vec3 0 0 0" pairs_example 2]
  show ?thesis by blast
qed

text \<open>
  Two nodes joined by one spring, at the same position and at rest, outside the
  ball: the momentum is zero before the substep and undefined after it.
\<close>

theorem coinciding_pair_momentum_counterexample:
  "x joined_example (0, 0) = x joined_example (1, 1) \<and>
   spring_offsets joined_example = [(1, 1), (- 1, - 1)] \<and>
   gravity params_free = Vec3 0 0 0 \<and> dashpot_damping params_free = 0 \<and>
   drag_damping params_free = 0 \<and> clear_of_ball params_free joined_example \<and>
   momentum params_free joined_example = Some (Vec3 0 0 0) \<and>
   momentum params_free (substep_A params_free joined_example) = None"
proof -
  have g: "grid (n params_free) = [(0, 0), (0, 1), (1, 0), (1, 1)]"
    by (simp add: params_free_def grid_2)
  have c: "clear_of_ball params_free joined_example"
    by (simp add: clear_of_ball_def g)
       (simp add: joined_example_def fields0_def minus_vec3_def vnorm_axis)
  have m0: "momentum params_free joined_example = Some (Vec3 0 0 0)"
    by (simp add: momentum_def g joined_example_def fields0_def plus_vec3_def)
  have h: "in_grid (n params_free) (0, 0)" "(1, 1) \<in> set (spring_offsets joined_example)"
    "in_grid (n params_free) (idx_add (0, 0) (1, 1))"
    "x joined_example (0, 0) = x joined_example (idx_add (0, 0) (1, 1))"
    by (simp_all add: params_free_def joined_example_def in_grid_def idx_add_def)
  have "v (substep_A params_free joined_example) (0, 0) = None"
    by (rule substep_A_coincide [OF h])
  then have m1: "momentum params_free (substep_A params_free joined_example) = None"
    by (simp add: momentum_def g fold_fadd_None)
  show ?thesis
    using c m0 m1 by (simp add: joined_example_def params_free_def)
qed

section \<open>Initialisation of the mass points\<close>

text \<open>
  Claim C9. For every grid size \<open>n \<ge> 2\<close> (and positive spacing),
  \<open>initialize_mass_points\<close> fills exactly the \<open>n * n\<close> nodes of the grid; every node
  has velocity zero; its position is the lattice point
  \<open>(i * quad_size - 0.5, 0.6, j * quad_size - 0.5)\<close>, at the fixed height 0.6, plus one
  offset vector that is the same for all nodes; so the difference of the positions
  of two nodes is that of the lattice without the offset, and the distance between
  two axis-adjacent nodes is \<open>quad_size\<close>.
\<close>

theorem initialize_lattice:
  "2 \<le> n P \<and> 0 < quad_size P \<and> in_grid (n P) i \<and> in_grid (n P) j \<longrightarrow>
     card {k. in_grid (n P) k} = nat (n P) * nat (n P) \<and>
     v (initialize_mass_points P r0 r1 s) i = Some (Vec3 0 0 0) \<and>
     x (initialize_mass_points P r0 r1 s) i =
       Some (Vec3 (real_of_int (fst i) * quad_size P - 1 / 2) (6 / 10)
                  (real_of_int (snd i) * quad_size P - 1 / 2)
             + Vec3 ((r0 - 1 / 2) * (1 / 10)) 0 ((r1 - 1 / 2) * (1 / 10))) \<and>
     fsub (x (initialize_mass_points P r0 r1 s) j) (x (initialize_mass_points P r0 r1 s) i) =
       Some (Vec3 (real_of_int (fst j - fst i) * quad_size P) 0
                  (real_of_int (snd j - snd i) * quad_size P)) \<and>
     (j = (fst i + 1, snd i) \<or> j = (fst i, snd i + 1) \<longrightarrow>
        map_option vnorm
          (fsub (x (initialize_mass_points P r0 r1 s) j) (x (initialize_mass_points P r0 r1 s) i))
          = Some (quad_size P))"
proof (intro impI, elim conjE)
  assume h: "2 \<le> n P" "0 < quad_size P" "in_grid (n P) i" "in_grid (n P) j"
  have d: "fsub (x (initialize_mass_points P r0 r1 s) j) (x (initialize_mass_points P r0 r1 s) i) =
       Some (Vec3 (real_of_int (fst j - fst i) * quad_size P) 0
                  (real_of_int (snd j - snd i) * quad_size P))"
    using h by (simp add: initialize_at fsub_def minus_vec3_def algebra_simps)
  have adj: "j = (fst i + 1, snd i) \<or> j = (fst i, snd i + 1) \<longrightarrow>
        map_option vnorm
          (fsub (x (initialize_mass_points P r0 r1 s) j) (x (initialize_mass_points P r0 r1 s) i))
          = Some (quad_size P)"
    unfolding d using h(2) by (auto simp: vnorm_axis)
  show "card {k. in_grid (n P) k} = nat (n P) * nat (n P) \<and>
     v (initialize_mass_points P r0 r1 s) i = Some (Vec3 0 0 0) \<and>
     x (initialize_mass_points P r0 r1 s) i =
       Some (Vec3 (real_of_int (fst i) * quad_size P - 1 / 2) (6 / 10)
                  (real_of_int (snd i) * quad_size P - 1 / 2)
             + Vec3 ((r0 - 1 / 2) * (1 / 10)) 0 ((r1 - 1 / 2) * (1 / 10))) \<and>
     fsub (x (initialize_mass_points P r0 r1 s) j) (x (initialize_mass_points P r0 r1 s) i) =
       Some (Vec3 (real_of_int (fst j - fst i) * quad_size P) 0
                  (real_of_int (snd j - snd i) * quad_size P)) \<and>
     (j = (fst i + 1, snd i) \<or> j = (fst i, snd i + 1) \<longrightarrow>
        map_option vnorm
          (fsub (x (initialize_mass_points P r0 r1 s) j) (x (initialize_mass_points P r0 r1 s) i))
          = Some (quad_size P))"
    using h d adj by (simp add: card_grid initialize_at plus_vec3_def)
qed

theorem initialize_lattice_witness:
  "(2 \<le> n params_A \<and> 0 < quad_size params_A \<and> in_grid (n params_A) (3, 7) \<and>
    in_grid (n params_A) (4, 7)) \<and>
   card {k. in_grid (n params_A) k} = nat (n params_A) * nat (n params_A) \<and>
   v (initialize_mass_points params_A (1 / 4) (3 / 4) fields0) (3, 7) = Some (Vec3 0 0 0) \<and>
   map_option vnorm
     (fsub (x (initialize_mass_points params_A (1 / 4) (3 / 4) fields0) (4, 7))
           (x (initialize_mass_points params_A (1 / 4) (3 / 4) fields0) (3, 7)))
     = Some (quad_size params_A)"
proof -
  have h: "2 \<le> n params_A \<and> 0 < quad_size params_A \<and> in_grid (n params_A) (3, 7) \<and>
    in_grid (n params_A) (4, 7)"
    by (simp add: params_A_def in_grid_def)
  have e: "(4 :: int, 7 :: int) = (fst (3 :: int, 7 :: int) + 1, snd (3 :: int, 7 :: int))" by simp
  from h e initialize_lattice [of params_A "(3, 7)" "(4, 7)" "1 / 4" "3 / 4" fields0]
  show ?thesis by blast
qed

section \<open>What a substep leaves unchanged\<close>

text \<open>
  Claim C10. A call of \<open>substep\<close> writes only the position and velocity fields:
  after any number of calls, in either variant, the centre and the radius of the
  ball, the list of spring offsets, the index buffer and the colour buffer are
  what they were before.
\<close>

theorem substep_frame:
  "ball_center ((substep_A P ^^ k) s) = ball_center s \<and>
   ball_radius ((substep_A P ^^ k) s) = ball_radius s \<and>
   spring_offsets ((substep_A P ^^ k) s) = spring_offsets s \<and>
   indices ((substep_A P ^^ k) s) = indices s \<and>
   colors ((substep_A P ^^ k) s) = colors s \<and>
   ball_center ((substep_B P ^^ k) s) = ball_center s \<and>
   ball_radius ((substep_B P ^^ k) s) = ball_radius s \<and>
   spring_offsets ((substep_B P ^^ k) s) = spring_offsets s \<and>
   indices ((substep_B P ^^ k) s) = indices s \<and>
   colors ((substep_B P ^^ k) s) = colors s"
proof -
  have "env_of ((substep_A P ^^ k) s) = env_of s"
    by (rule env_funpow) (rule env_substep_A)
  moreover have "env_of ((substep_B P ^^ k) s) = env_of s"
    by (rule env_funpow) (rule env_substep_B)
  ultimately show ?thesis by (simp add: env_of_def)
qed

end
